theory Spec2Isabelle
  imports Main "HOL-Library.Mapping" "HOL-Library.AList_Mapping"
begin

section \<open>git-push-stack: the reconciliation engine\<close>

text \<open>
  A shallow embedding of \<^verbatim>\<open>src/git_push_stack/__init__.py\<close>. Python strings are
  \<^typ>\<open>string\<close>, the dictionary of known change identifiers is a finite mapping whose values
  are optional pull requests, \<^verbatim>\<open>sys.exit\<close> and raised exceptions are values of the type
  \<open>error\<close>, and the console, the HTTP requests sent and the state of the hosting service
  are threaded through a record.
\<close>

subsection \<open>Data model\<close>

record HeadRef =
  sha :: string

record PullRequest =
  pr_html_url :: string
  pr_number :: string
  pr_title :: string
  pr_head :: HeadRef
  pr_state :: string

type_synonym ChangeId = string

type_synonym KnownChangeIDs = "(ChangeId, PullRequest option) mapping"

text \<open>\<^verbatim>\<open>Change = (changeid, commit, title, message)\<close>\<close>

type_synonym Change = "ChangeId \<times> string \<times> string \<times> string"

datatype error =
    SystemExit int
  | HTTPStatusError int
  | RuntimeError string
  | KeyError string

text \<open>
  \<^verbatim>\<open>known_changeids.get(changeid)\<close>: \<^verbatim>\<open>None\<close> for a missing key and for a key
  stored with the value \<^verbatim>\<open>None\<close> alike.
\<close>

definition dict_get :: "KnownChangeIDs \<Rightarrow> ChangeId \<Rightarrow> PullRequest option" where
  "dict_get known_changeids changeid =
     (case Mapping.lookup known_changeids changeid of None \<Rightarrow> None | Some pull \<Rightarrow> pull)"

text \<open>The slice \<^verbatim>\<open>s[-7:]\<close>: the last seven characters, or all of a shorter string.\<close>

definition last7 :: "string \<Rightarrow> string" where
  "last7 s = drop (length s - 7) s"

text \<open>\<^verbatim>\<open>s.startswith(p)\<close>\<close>

definition startswith :: "string \<Rightarrow> string \<Rightarrow> bool" where
  "startswith s p \<longleftrightarrow> take (length p) s = p"

subsection \<open>The trailer pattern\<close>

text \<open>
  \<^verbatim>\<open>CHANGEID_RE = re.compile(r"Change-Id: (I[0-9a-z]{40})")\<close>. The pattern is a
  literal, the letter I and forty characters of one class, so a match attempt at a
  position is a left-to-right scan with no backtracking. \<open>match_lit\<close> consumes a
  literal, \<open>match_class\<close> consumes \<open>n\<close> characters of a class; both return what is left
  of the subject.
\<close>

definition digit_or_lower :: "char \<Rightarrow> bool" where
  "digit_or_lower c \<longleftrightarrow>
     (48 \<le> (of_char c :: nat) \<and> (of_char c :: nat) \<le> 57) \<or>
     (97 \<le> (of_char c :: nat) \<and> (of_char c :: nat) \<le> 122)"

fun match_lit :: "string \<Rightarrow> string \<Rightarrow> string option" where
  "match_lit [] s = Some s"
| "match_lit (p # ps) [] = None"
| "match_lit (p # ps) (c # cs) = (if p = c then match_lit ps cs else None)"

fun match_class :: "(char \<Rightarrow> bool) \<Rightarrow> nat \<Rightarrow> string \<Rightarrow> (string \<times> string) option" where
  "match_class P 0 s = Some ([], s)"
| "match_class P (Suc n) [] = None"
| "match_class P (Suc n) (c # cs) =
     (if P c
      then (case match_class P n cs of
              None \<Rightarrow> None
            | Some (m, rest) \<Rightarrow> Some (c # m, rest))
      else None)"

text \<open>
  One match attempt of \<^verbatim>\<open>CHANGEID_RE\<close> at the start of \<open>s\<close>: group 1 and the
  rest of the subject after the match.
\<close>

definition CHANGEID_RE_match :: "string \<Rightarrow> (string \<times> string) option" where
  "CHANGEID_RE_match s =
     (case match_lit ''Change-Id: '' s of
        None \<Rightarrow> None
      | Some r1 \<Rightarrow>
          (case match_lit ''I'' r1 of
             None \<Rightarrow> None
           | Some r2 \<Rightarrow>
               (case match_class digit_or_lower 40 r2 of
                  None \<Rightarrow> None
                | Some (m, rest) \<Rightarrow> Some (CHR ''I'' # m, rest))))"

lemma match_lit_iff: "match_lit p s = Some r \<longleftrightarrow> s = p @ r"
  by (induction p s rule: match_lit.induct) auto

lemma match_class_iff:
  "match_class P n s = Some (m, r) \<longleftrightarrow> s = m @ r \<and> length m = n \<and> list_all P m"
proof (induction P n s arbitrary: m rule: match_class.induct)
  case (1 P s)
  then show ?case by auto
next
  case (2 P n)
  then show ?case by auto
next
  case (3 P n c cs)
  show ?case
  proof (cases "P c")
    case False
    then show ?thesis by (cases m) auto
  next
    case True
    show ?thesis
    proof (cases m)
      case Nil
      with True show ?thesis by (auto split: option.splits)
    next
      case (Cons a m')
      with True 3 [of m'] show ?thesis
        by (auto split: option.splits)
    qed
  qed
qed

lemma CHANGEID_RE_match_iff:
  "CHANGEID_RE_match s = Some (g, rest) \<longleftrightarrow>
     (\<exists>m. g = CHR ''I'' # m \<and> length m = 40 \<and> list_all digit_or_lower m \<and>
          s = ''Change-Id: '' @ g @ rest)"
proof
  assume "CHANGEID_RE_match s = Some (g, rest)"
  then obtain r1 r2 m where
    a: "match_lit ''Change-Id: '' s = Some r1" and
    b: "match_lit ''I'' r1 = Some r2" and
    c: "match_class digit_or_lower 40 r2 = Some (m, rest)" and
    g: "g = CHR ''I'' # m"
    unfolding CHANGEID_RE_match_def
    by (auto split: option.splits)
  from a have "s = ''Change-Id: '' @ r1" by (simp only: match_lit_iff)
  moreover from b have "r1 = ''I'' @ r2" by (simp only: match_lit_iff)
  moreover from c have "r2 = m @ rest" "length m = 40" "list_all digit_or_lower m"
    by (simp_all only: match_class_iff)
  ultimately show "\<exists>m. g = CHR ''I'' # m \<and> length m = 40 \<and> list_all digit_or_lower m \<and>
          s = ''Change-Id: '' @ g @ rest"
    using g by auto
next
  assume "\<exists>m. g = CHR ''I'' # m \<and> length m = 40 \<and> list_all digit_or_lower m \<and>
          s = ''Change-Id: '' @ g @ rest"
  then obtain m where g: "g = CHR ''I'' # m" and m: "length m = 40" "list_all digit_or_lower m"
    and s: "s = ''Change-Id: '' @ g @ rest" by blast
  have a: "match_lit ''Change-Id: '' s = Some (''I'' @ m @ rest)"
    using s g by (simp only: match_lit_iff) simp
  have b: "match_lit ''I'' (''I'' @ m @ rest) = Some (m @ rest)"
    by (simp only: match_lit_iff)
  have c: "match_class digit_or_lower 40 (m @ rest) = Some (m, rest)"
    using m by (simp add: match_class_iff)
  show "CHANGEID_RE_match s = Some (g, rest)"
    unfolding CHANGEID_RE_match_def using a b c g by simp
qed

lemma CHANGEID_RE_match_shorter:
  "CHANGEID_RE_match s = Some (g, rest) \<Longrightarrow> length rest < length s"
  by (auto simp: CHANGEID_RE_match_iff)

text \<open>
  \<^verbatim>\<open>CHANGEID_RE.findall(message)\<close>: the subject is scanned from the left; a match
  contributes its group 1 and the scan resumes after it, a failed attempt moves one
  character on. The pattern matches no empty string, so nothing is found at the end.
\<close>

function findall :: "string \<Rightarrow> string list" where
  "findall [] = []"
| "findall (c # cs) =
     (case CHANGEID_RE_match (c # cs) of
        Some (g, rest) \<Rightarrow> g # findall rest
      | None \<Rightarrow> findall cs)"
  by pat_completeness auto
termination
  by (relation "measure length") (auto dest: CHANGEID_RE_match_shorter)

subsection \<open>The external collaborators\<close>

text \<open>
  The version-control provider is a parameter: \<open>run cmd\<close> is the return code and the
  decoded standard output of the shell command \<open>cmd\<close>. \<^verbatim>\<open>str.strip()\<close> removes
  leading and trailing white space: of the characters of \<^typ>\<open>char\<close>, the code points
  9 to 13, 28 to 32, 133 and 160.
\<close>

type_synonym shell = "string \<Rightarrow> int \<times> string"

definition isspace :: "char \<Rightarrow> bool" where
  "isspace c \<longleftrightarrow>
     (9 \<le> (of_char c :: nat) \<and> (of_char c :: nat) \<le> 13) \<or>
     (28 \<le> (of_char c :: nat) \<and> (of_char c :: nat) \<le> 32) \<or>
     (of_char c :: nat) = 133 \<or> (of_char c :: nat) = 160"

definition strip :: "string \<Rightarrow> string" where
  "strip s = rev (dropWhile isspace (rev (dropWhile isspace s)))"

text \<open>
  The hosting API is a state machine given as a parameter: \<open>client req s\<close> is the
  response to the request \<open>req\<close> in the service state \<open>s\<close>, and the next state. A
  request has the method, the URL (relative to the repository's base URL), the query
  parameters, the JSON object of the body as a list of members, and the raw content.
  A response is read at the type the source casts \<^verbatim>\<open>r.json()\<close> to.
\<close>

datatype http_method = GET | POST | PATCH | DELETE

datatype json = JStr string | JBool bool

datatype request =
  Request (req_method: http_method) (req_url: string)
    (req_params: "(string \<times> string) list") (req_json: "(string \<times> json) list")
    (req_content: string)

record comment =
  comment_body :: string
  comment_url :: string

record response =
  status_code :: int
  json_pull :: PullRequest
  json_pulls :: "PullRequest list"
  json_comments :: "comment list"

type_synonym 'srv client = "request \<Rightarrow> 'srv \<Rightarrow> response \<times> 'srv"

text \<open>
  What a run acts on: the state of the hosting service, the requests sent so far
  (oldest first) and the lines written to the console (oldest first; the transient
  status spinners are not lines).
\<close>

record 'srv world =
  server :: 'srv
  sent :: "request list"
  console :: "string list"

definition console_log :: "string \<Rightarrow> 'srv world \<Rightarrow> 'srv world" where
  "console_log line w = w\<lparr>console := console w @ [line]\<rparr>"

definition send :: "'srv client \<Rightarrow> request \<Rightarrow> 'srv world \<Rightarrow> response \<times> 'srv world" where
  "send client req w =
     (case client req (server w) of
        (r, s) \<Rightarrow> (r, w\<lparr>server := s, sent := sent w @ [req]\<rparr>))"

definition client_get ::
  "'srv client \<Rightarrow> string \<Rightarrow> (string \<times> string) list \<Rightarrow> 'srv world \<Rightarrow> response \<times> 'srv world" where
  "client_get client url params w = send client (Request GET url params [] []) w"

definition client_post ::
  "'srv client \<Rightarrow> string \<Rightarrow> (string \<times> json) list \<Rightarrow> 'srv world \<Rightarrow> response \<times> 'srv world" where
  "client_post client url js w = send client (Request POST url [] js []) w"

definition client_post_content ::
  "'srv client \<Rightarrow> string \<Rightarrow> string \<Rightarrow> 'srv world \<Rightarrow> response \<times> 'srv world" where
  "client_post_content client url content w = send client (Request POST url [] [] content) w"

definition client_patch ::
  "'srv client \<Rightarrow> string \<Rightarrow> (string \<times> json) list \<Rightarrow> 'srv world \<Rightarrow> response \<times> 'srv world" where
  "client_patch client url js w = send client (Request PATCH url [] js []) w"

definition client_delete :: "'srv client \<Rightarrow> string \<Rightarrow> 'srv world \<Rightarrow> response \<times> 'srv world" where
  "client_delete client url w = send client (Request DELETE url [] [] []) w"

text \<open>
  \<^verbatim>\<open>check_for_status\<close>: nothing below 400; a client error prints the diagnostics
  (not modelled as console lines) and exits with status 1; a server error is raised by
  \<^verbatim>\<open>raise_for_status\<close>. The diagnostics read the member \<^verbatim>\<open>message\<close> of the JSON
  body of the response; the body of a client error is taken to be such an object, as the
  service sends it, so that reading it does not fail.
\<close>

definition check_for_status :: "response \<Rightarrow> error option" where
  "check_for_status r =
     (if status_code r < 400 then None
      else if status_code r < 500 then Some (SystemExit 1)
      else Some (HTTPStatusError (status_code r)))"

text \<open>
  \<^verbatim>\<open>git(args)\<close>: a failing command is logged and ends the run with status 1;
  otherwise the stripped output.
\<close>

definition git :: "shell \<Rightarrow> string \<Rightarrow> 'srv world \<Rightarrow> (error + string) \<times> 'srv world" where
  "git run args w =
     (case run (''git '' @ args) of
        (returncode, stdout) \<Rightarrow>
          if returncode \<noteq> 0
          then (Inl (SystemExit 1),
                console_log stdout (console_log (''fail to run `git '' @ args @ ''`:'') w))
          else (Inr (strip stdout), w))"

subsection \<open>Remote stack index\<close>

text \<open>Lines 139 and 140: the branch of a reference, the identifier of a stack branch.\<close>

definition ref_branch :: "string \<Rightarrow> string" where
  "ref_branch ref = drop (length ''refs/heads/'') ref"

definition branch_changeid :: "string \<Rightarrow> string \<Rightarrow> ChangeId" where
  "branch_changeid stack_prefix branch = drop (length stack_prefix) branch"

definition get_changeid_and_pull ::
  "'srv client \<Rightarrow> string \<Rightarrow> string \<Rightarrow> string \<Rightarrow> 'srv world \<Rightarrow>
     (error + ChangeId \<times> PullRequest option) \<times> 'srv world" where
  "get_changeid_and_pull client user stack_prefix ref w =
     (let branch = ref_branch ref;
          changeid = branch_changeid stack_prefix branch
      in case client_get client ''pulls''
                [(''head'', user @ '':'' @ branch), (''state'', ''open'')] w of
           (r, w1) \<Rightarrow>
             (case check_for_status r of
                Some e \<Rightarrow> (Inl e, w1)
              | None \<Rightarrow>
                  (let pulls = filter (\<lambda>p. pr_state p = ''open'') (json_pulls r)
                   in if length pulls > 1
                      then (Inl (RuntimeError
                              (''More than 1 pull found with this head: '' @ branch)), w1)
                      else if pulls \<noteq> [] then (Inr (changeid, Some (hd pulls)), w1)
                      else (Inr (changeid, None), w1))))"

subsection \<open>Reconciliation planner\<close>

text \<open>
  The classification in the body of the loop of \<^verbatim>\<open>get_local_changes\<close>: the
  action, the URL and the commit information of the plan line.
\<close>

definition plan_action :: "KnownChangeIDs \<Rightarrow> ChangeId \<Rightarrow> string \<Rightarrow> string \<times> string \<times> string" where
  "plan_action known_changeids changeid commit =
     (case dict_get known_changeids changeid of
        None \<Rightarrow> (''to create'', [], last7 commit)
      | Some pull \<Rightarrow>
          if commit = sha (pr_head pull)
          then (''nothing'', pr_html_url pull, last7 commit)
          else (''to update'', pr_html_url pull,
                last7 (sha (pr_head pull)) @ '' -> '' @ last7 commit))"

definition plan_line :: "KnownChangeIDs \<Rightarrow> Change \<Rightarrow> string" where
  "plan_line known_changeids change =
     (case change of
        (changeid, commit, title, message) \<Rightarrow>
          (case plan_action known_changeids changeid commit of
             (action, url, commit_info) \<Rightarrow>
               ''* [yellow]'' @ [CHR 0x5C] @ ''['' @ action @ ''][/] '' @ [CHR 0x27]
                 @ ''[red]'' @ commit_info @ ''[/] - [b]'' @ title @ ''[/] '' @ url
                 @ '' - '' @ changeid))"

text \<open>
  The arguments \<^verbatim>\<open>log -1 --format='%b' {commit}\<close> and
  \<^verbatim>\<open>log -1 --format='%s' {commit}\<close> of the two calls of \<^verbatim>\<open>git\<close>.
\<close>

definition log_format :: "string \<Rightarrow> string \<Rightarrow> string" where
  "log_format fmt commit =
     ''log -1 --format='' @ [CHR 0x27] @ fmt @ [CHR 0x27] @ '' '' @ commit"

text \<open>
  \<^verbatim>\<open>get_local_changes\<close>: the loop over the commits, with the changes collected so
  far as an accumulator.
\<close>

fun get_local_changes_loop ::
  "shell \<Rightarrow> KnownChangeIDs \<Rightarrow> string list \<Rightarrow> Change list \<Rightarrow> 'srv world \<Rightarrow>
     (error + Change list) \<times> 'srv world" where
  "get_local_changes_loop run known_changeids [] changes w = (Inr changes, w)"
| "get_local_changes_loop run known_changeids (commit # commits) changes w =
     (case git run (log_format ''%b'' commit) w of
        (Inl e, w1) \<Rightarrow> (Inl e, w1)
      | (Inr message, w1) \<Rightarrow>
          (case git run (log_format ''%s'' commit) w1 of
             (Inl e, w2) \<Rightarrow> (Inl e, w2)
           | (Inr title, w2) \<Rightarrow>
               (let changeids = findall message
                in if changeids = []
                   then (Inl (SystemExit 1),
                         console_log (''`Change-Id:` line is missing on commit '' @ commit) w2)
                   else (let change = (last changeids, commit, title, message)
                         in get_local_changes_loop run known_changeids commits
                              (changes @ [change])
                              (console_log (plan_line known_changeids change) w2)))))"

definition get_local_changes ::
  "shell \<Rightarrow> string list \<Rightarrow> KnownChangeIDs \<Rightarrow> 'srv world \<Rightarrow>
     (error + Change list) \<times> 'srv world" where
  "get_local_changes run commits known_changeids w =
     get_local_changes_loop run known_changeids commits [] w"

text \<open>
  \<^verbatim>\<open>get_changeids_to_delete\<close> returns a set. The loop after the set difference
  only logs one line for each identifier, in the iteration order of the set, which the
  language leaves open; \<open>to_delete_line\<close> is that line.
\<close>

definition get_changeids_to_delete :: "Change list \<Rightarrow> KnownChangeIDs \<Rightarrow> ChangeId set" where
  "get_changeids_to_delete changes known_changeids =
     Mapping.keys known_changeids - set (map (\<lambda>(changeid, commit, title, message). changeid) changes)"

definition to_delete_line :: "KnownChangeIDs \<Rightarrow> ChangeId \<Rightarrow> string" where
  "to_delete_line known_changeids changeid =
     (case dict_get known_changeids changeid of
        Some pull \<Rightarrow>
          ''* [red]'' @ [CHR 0x5C] @ ''[to delete][/] '' @ [CHR 0x27] @ ''[red]''
            @ last7 (sha (pr_head pull)) @ ''[/] - [b]'' @ pr_title pull @ ''[/] ''
            @ pr_html_url pull @ '' - '' @ changeid
      | None \<Rightarrow>
          ''* [red]'' @ [CHR 0x5C] @ ''[to delete][/] '' @ [CHR 0x27]
            @ ''[red].......[/] - [b]<missing pull request>[/] - '' @ changeid)"

subsection \<open>Stack builder\<close>

definition READY_FOR_REVIEW_TEMPLATE :: "string \<Rightarrow> string" where
  "READY_FOR_REVIEW_TEMPLATE n =
     ''mutation { markPullRequestReadyForReview(input: { pullRequestId: '' @ n @ '' }) {} }''"

text \<open>The line logged at the end of \<^verbatim>\<open>create_or_update_stack\<close>.\<close>

definition stack_line :: "string \<Rightarrow> string \<Rightarrow> PullRequest \<Rightarrow> ChangeId \<Rightarrow> string" where
  "stack_line action commit pull changeid =
     ''* [blue]'' @ [CHR 0x5C] @ ''['' @ action @ ''][/] '' @ [CHR 0x27] @ ''[red]''
       @ last7 commit @ ''[/] - [b]'' @ pr_title pull @ ''[/] '' @ pr_html_url pull
       @ '' - '' @ changeid"

text \<open>
  \<^verbatim>\<open>create_or_update_stack\<close>: the branch reference is updated when the identifier
  is a key of the index and created otherwise; then the pull request is left alone,
  patched (and marked ready for review when \<open>draft\<close> is false) or created.
\<close>

definition create_or_update_stack ::
  "'srv client \<Rightarrow> string \<Rightarrow> string \<Rightarrow> ChangeId \<Rightarrow> string \<Rightarrow> string \<Rightarrow> string \<Rightarrow> bool \<Rightarrow>
     KnownChangeIDs \<Rightarrow> 'srv world \<Rightarrow> (error + PullRequest) \<times> 'srv world" where
  "create_or_update_stack client stacked_base_branch stacked_dest_branch changeid commit
       title message draft known_changeids w =
     (case (if changeid \<in> Mapping.keys known_changeids
            then client_patch client (''git/refs/heads/'' @ stacked_dest_branch)
                   [(''sha'', JStr commit), (''force'', JBool True)] w
            else client_post client ''git/refs''
                   [(''ref'', JStr (''refs/heads/'' @ stacked_dest_branch)),
                    (''sha'', JStr commit)] w) of
        (r, w1) \<Rightarrow>
          (case check_for_status r of
             Some e \<Rightarrow> (Inl e, w1)
           | None \<Rightarrow>
               (case dict_get known_changeids changeid of
                  Some pull \<Rightarrow>
                    if sha (pr_head pull) = commit
                    then (Inr pull, console_log (stack_line ''nothing'' commit pull changeid) w1)
                    else
                      (case client_patch client (''pulls/'' @ pr_number pull)
                              [(''title'', JStr title), (''body'', JStr message),
                               (''head'', JStr stacked_dest_branch),
                               (''base'', JStr stacked_base_branch)] w1 of
                         (r2, w2) \<Rightarrow>
                           (case check_for_status r2 of
                              Some e \<Rightarrow> (Inl e, w2)
                            | None \<Rightarrow>
                                (let pull2 = json_pull r2
                                 in if \<not> draft
                                    then
                                      (case client_post_content client ''/graghql''
                                              (READY_FOR_REVIEW_TEMPLATE (pr_number pull2)) w2 of
                                         (r3, w3) \<Rightarrow>
                                           (case check_for_status r3 of
                                              Some e \<Rightarrow> (Inl e, w3)
                                            | None \<Rightarrow>
                                                (Inr pull2,
                                                 console_log
                                                   (stack_line ''updated'' commit pull2 changeid) w3)))
                                    else (Inr pull2,
                                          console_log
                                            (stack_line ''updated'' commit pull2 changeid) w2))))
                | None \<Rightarrow>
                    (case client_post client ''pulls''
                            [(''title'', JStr title), (''body'', JStr message),
                             (''draft'', JBool draft),
                             (''head'', JStr stacked_dest_branch),
                             (''base'', JStr stacked_base_branch)] w1 of
                       (r2, w2) \<Rightarrow>
                         (case check_for_status r2 of
                            Some e \<Rightarrow> (Inl e, w2)
                          | None \<Rightarrow>
                              (let pull2 = json_pull r2
                               in (Inr pull2,
                                   console_log
                                     (stack_line ''created'' commit pull2 changeid) w2)))))))"

text \<open>
  The loop of \<^verbatim>\<open>main\<close> over \<^verbatim>\<open>reversed(changes)\<close> (lines 408 to 426). The
  variables the loop carries are arguments: \<open>stacked_base_branch\<close>, \<open>draft\<close> and
  \<open>pulls\<close>.
\<close>

fun main_loop ::
  "'srv client \<Rightarrow> string \<Rightarrow> KnownChangeIDs \<Rightarrow> Change list \<Rightarrow> string \<Rightarrow> bool \<Rightarrow>
     PullRequest list \<Rightarrow> 'srv world \<Rightarrow> (error + PullRequest list) \<times> 'srv world" where
  "main_loop client stack_prefix known_changeids [] stacked_base_branch draft pulls w =
     (Inr pulls, w)"
| "main_loop client stack_prefix known_changeids ((changeid, commit, title, message) # rest)
       stacked_base_branch draft pulls w =
     (let depends_on =
            (if pulls \<noteq> []
             then [CHR 0x0A, CHR 0x0A] @ ''Depends-On: #'' @ pr_number (last pulls)
             else []);
          stacked_dest_branch = stack_prefix @ changeid
      in case create_or_update_stack client stacked_base_branch stacked_dest_branch
                changeid commit title (message @ depends_on) draft known_changeids w of
           (Inl e, w1) \<Rightarrow> (Inl e, w1)
         | (Inr pull, w1) \<Rightarrow>
             main_loop client stack_prefix known_changeids rest stacked_dest_branch True
               (pulls @ [pull]) w1)"

subsection \<open>The requests of one entry of the stack\<close>

text \<open>
  The four requests \<^verbatim>\<open>create_or_update_stack\<close> can send, as it writes them: the
  update or the creation of the branch reference, the update of the pull request, its
  transition to ready for review, and the creation of the pull request.
\<close>

abbreviation ref_request :: "KnownChangeIDs \<Rightarrow> ChangeId \<Rightarrow> string \<Rightarrow> string \<Rightarrow> request" where
  "ref_request known_changeids changeid stacked_dest_branch commit \<equiv>
     (if changeid \<in> Mapping.keys known_changeids
      then Request PATCH (''git/refs/heads/'' @ stacked_dest_branch) []
             [(''sha'', JStr commit), (''force'', JBool True)] []
      else Request POST ''git/refs'' []
             [(''ref'', JStr (''refs/heads/'' @ stacked_dest_branch)), (''sha'', JStr commit)] [])"

abbreviation update_request :: "PullRequest \<Rightarrow> string \<Rightarrow> string \<Rightarrow> string \<Rightarrow> string \<Rightarrow> request" where
  "update_request pull title message stacked_dest_branch stacked_base_branch \<equiv>
     Request PATCH (''pulls/'' @ pr_number pull) []
       [(''title'', JStr title), (''body'', JStr message),
        (''head'', JStr stacked_dest_branch), (''base'', JStr stacked_base_branch)] []"

abbreviation ready_request :: "string \<Rightarrow> request" where
  "ready_request n \<equiv> Request POST ''/graghql'' [] [] (READY_FOR_REVIEW_TEMPLATE n)"

abbreviation create_request :: "string \<Rightarrow> string \<Rightarrow> bool \<Rightarrow> string \<Rightarrow> string \<Rightarrow> request" where
  "create_request title message draft stacked_dest_branch stacked_base_branch \<equiv>
     Request POST ''pulls'' []
       [(''title'', JStr title), (''body'', JStr message), (''draft'', JBool draft),
        (''head'', JStr stacked_dest_branch), (''base'', JStr stacked_base_branch)] []"

subsection \<open>Comment synchronizer\<close>

text \<open>The body built from the pulls at the start of \<^verbatim>\<open>create_or_update_comments\<close>.\<close>

definition first_line :: string where
  "first_line = ''This pull request is part of a stack:'' @ [CHR 0x0A]"

definition comment_entry :: "PullRequest \<Rightarrow> string" where
  "comment_entry pull =
     ''1. '' @ pr_title pull @ '' ([#'' @ pr_number pull @ '']('' @ pr_html_url pull @ ''))''
       @ [CHR 0x0A]"

definition stack_body :: "PullRequest list \<Rightarrow> string" where
  "stack_body pulls = first_line @ concat (map comment_entry pulls)"

text \<open>
  The inner \<^verbatim>\<open>for ... else\<close> over the comments of one pull request: the first
  comment that starts with the header is patched when it differs and ends the loop; a
  loop that ends without a \<^verbatim>\<open>break\<close> posts a new comment. The responses to the
  patch and to the post are not checked.
\<close>

fun sync_comment ::
  "'srv client \<Rightarrow> string \<Rightarrow> PullRequest \<Rightarrow> comment list \<Rightarrow> 'srv world \<Rightarrow> 'srv world" where
  "sync_comment client body pull [] w =
     snd (client_post client (''issues/'' @ pr_number pull @ ''/comments'')
            [(''body'', JStr body)] w)"
| "sync_comment client body pull (c # comments) w =
     (if startswith (comment_body c) first_line
      then (if comment_body c \<noteq> body
            then snd (client_patch client (comment_url c) [(''body'', JStr body)] w)
            else w)
      else sync_comment client body pull comments w)"

fun sync_pulls ::
  "'srv client \<Rightarrow> string \<Rightarrow> PullRequest list \<Rightarrow> 'srv world \<Rightarrow> (error + unit) \<times> 'srv world" where
  "sync_pulls client body [] w = (Inr (), w)"
| "sync_pulls client body (pull # pulls) w =
     (case client_get client (''issues/'' @ pr_number pull @ ''/comments'') [] w of
        (r, w1) \<Rightarrow>
          (case check_for_status r of
             Some e \<Rightarrow> (Inl e, w1)
           | None \<Rightarrow> sync_pulls client body pulls (sync_comment client body pull (json_comments r) w1)))"

definition create_or_update_comments ::
  "'srv client \<Rightarrow> PullRequest list \<Rightarrow> 'srv world \<Rightarrow> (error + unit) \<times> 'srv world" where
  "create_or_update_comments client pulls w = sync_pulls client (stack_body pulls) pulls w"

subsection \<open>Stack pruner\<close>

text \<open>
  \<^verbatim>\<open>delete_stack\<close>: the subscript \<^verbatim>\<open>known_changeids[changeid]\<close> raises
  \<^verbatim>\<open>KeyError\<close> for a missing key.
\<close>

definition delete_stack ::
  "'srv client \<Rightarrow> string \<Rightarrow> ChangeId \<Rightarrow> KnownChangeIDs \<Rightarrow> 'srv world \<Rightarrow>
     (error + unit) \<times> 'srv world" where
  "delete_stack client stack_prefix changeid known_changeids w =
     (case client_delete client (''git/refs/heads/'' @ stack_prefix @ changeid) w of
        (r, w1) \<Rightarrow>
          (case check_for_status r of
             Some e \<Rightarrow> (Inl e, w1)
           | None \<Rightarrow>
               (case Mapping.lookup known_changeids changeid of
                  None \<Rightarrow> (Inl (KeyError changeid), w1)
                | Some (Some pull) \<Rightarrow>
                    (Inr (),
                     console_log
                       (''* [red]'' @ [CHR 0x5C] @ ''[deleted][/] '' @ [CHR 0x27] @ ''[red]''
                          @ last7 (sha (pr_head pull)) @ ''[/] - [b]'' @ pr_title pull
                          @ ''[/] '' @ pr_html_url pull @ '' - '' @ changeid) w1)
                | Some None \<Rightarrow>
                    (Inr (),
                     console_log
                       (''* [red]'' @ [CHR 0x5C] @ ''[deleted][/] '' @ [CHR 0x27]
                          @ ''[red].......[/] - [b]<branch '' @ stack_prefix @ changeid
                          @ ''>[/] - '' @ changeid) w1))))"

subsection \<open>The run\<close>

text \<open>
  \<^verbatim>\<open>main\<close> from the plan to the comments (lines 394 to 430), given what the lines
  before have computed: the commits (newest first), the index, the prefix of the stack
  branches and the upstream base branch. A dry run ends with status 0 after the plan.
  The deletions that follow run \<^verbatim>\<open>delete_stack\<close> for each identifier of the
  delete set concurrently; they are not part of this function. The lines that
  \<^verbatim>\<open>get_changeids_to_delete\<close> logs, one for each identifier of the delete set in the
  iteration order of the set, are not among the console lines of the result.
\<close>

definition main_run ::
  "shell \<Rightarrow> 'srv client \<Rightarrow> bool \<Rightarrow> string \<Rightarrow> string \<Rightarrow> string list \<Rightarrow> KnownChangeIDs \<Rightarrow>
     'srv world \<Rightarrow> (error + ChangeId set) \<times> 'srv world" where
  "main_run run client dry_run stack_prefix base_branch commits known_changeids w =
     (case get_local_changes run commits known_changeids
             (console_log ''Stacked pull request plan:'' w) of
        (Inl e, w1) \<Rightarrow> (Inl e, w1)
      | (Inr changes, w1) \<Rightarrow>
          (let changeids_to_delete = get_changeids_to_delete changes known_changeids
           in if dry_run
              then (Inl (SystemExit 0),
                    console_log ''[orange]Finished (dry-run mode) :tada:[/]'' w1)
              else
                (case main_loop client stack_prefix known_changeids (rev changes)
                        base_branch False [] (console_log ''New stacked pull request:'' w1) of
                   (Inl e, w2) \<Rightarrow> (Inl e, w2)
                 | (Inr pulls, w2) \<Rightarrow>
                     (case create_or_update_comments client pulls w2 of
                        (Inl e, w3) \<Rightarrow> (Inl e, w3)
                      | (Inr u, w3) \<Rightarrow>
                          (Inr changeids_to_delete,
                           console_log ''[green]Comments updated'' w3)))))"

subsection \<open>Every occurrence of the trailer\<close>

text \<open>
  The tokens of all the positions of a message where the trailer pattern matches, from
  left to right, whether or not two matches overlap. This is what ``the matching
  occurrences'' of a message are; \<open>findall\<close> is compared with it below.
\<close>

fun occurrences :: "string \<Rightarrow> string list" where
  "occurrences [] = []"
| "occurrences (c # cs) =
     (case CHANGEID_RE_match (c # cs) of
        Some (g, rest) \<Rightarrow> g # occurrences cs
      | None \<Rightarrow> occurrences cs)"

subsection \<open>A hosting service and a repository to run the engine on\<close>

text \<open>
  A small hosting service in memory. Every request succeeds. The comments are kept by
  the URL of their list: a \<^verbatim>\<open>GET\<close> returns the list, a \<^verbatim>\<open>POST\<close> of a body to
  the comments of an issue appends a comment with a URL of its own, a \<^verbatim>\<open>PATCH\<close>
  of a body replaces the body of the comments that have the URL. The pull request
  endpoints answer with one fixed pull request.
\<close>

type_synonym comment_store = "(string \<times> comment list) list"

definition reply :: "comment list \<Rightarrow> response" where
  "reply cs =
     \<lparr>status_code = 200,
      json_pull = \<lparr>pr_html_url = ''https://host/pull/7'', pr_number = ''7'',
                   pr_title = ''subject'', pr_head = \<lparr>sha = ''c1''\<rparr>, pr_state = ''open''\<rparr>,
      json_pulls = [], json_comments = cs\<rparr>"

definition comments_at :: "comment_store \<Rightarrow> string \<Rightarrow> comment list" where
  "comments_at s url = (case map_of s url of None \<Rightarrow> [] | Some cs \<Rightarrow> cs)"

definition set_body :: "string \<Rightarrow> string \<Rightarrow> comment \<Rightarrow> comment" where
  "set_body url b c = (if comment_url c = url then c\<lparr>comment_body := b\<rparr> else c)"

definition comment_service :: "comment_store client" where
  "comment_service req s =
     (case (req_method req, map_of (req_json req) ''body'') of
        (GET, _) \<Rightarrow> (reply (comments_at s (req_url req)), s)
      | (POST, Some (JStr b)) \<Rightarrow>
          (if startswith (req_url req) ''issues/''
           then (reply [],
                 (req_url req,
                  comments_at s (req_url req) @
                    [\<lparr>comment_body = b,
                      comment_url = req_url req @ ''/''
                        @ replicate (length (comments_at s (req_url req))) (CHR ''i'')\<rparr>])
                 # s)
           else (reply [], s))
      | (PATCH, Some (JStr b)) \<Rightarrow>
          (reply [], map (\<lambda>(u, cs). (u, map (set_body (req_url req) b) cs)) s)
      | _ \<Rightarrow> (reply [], s))"

definition world0 :: "comment_store world" where
  "world0 = \<lparr>server = [], sent = [], console = []\<rparr>"

text \<open>
  Two repositories: in the first every commit message is one trailer with the same
  identifier and every subject is \<^verbatim>\<open>subject\<close>; in the second no message has a
  trailer.
\<close>

definition dup_shell :: shell where
  "dup_shell cmd =
     (if cmd = ''git '' @ log_format ''%s'' ''c1'' \<or> cmd = ''git '' @ log_format ''%s'' ''c2''
      then (0, ''subject'')
      else (0, ''Change-Id: I0000000000000000000000000000000000000000''))"

definition bare_shell :: shell where
  "bare_shell cmd = (0, ''no trailer in this message'')"

text \<open>
  A third repository, a stack of two commits: the message of \<^verbatim>\<open>c1\<close> and the message
  of \<^verbatim>\<open>c2\<close> are one trailer each, with two identifiers, and every subject is
  \<^verbatim>\<open>subject\<close>.
\<close>

definition stack_shell :: shell where
  "stack_shell cmd =
     (if cmd = ''git '' @ log_format ''%b'' ''c1''
      then (0, ''Change-Id: I1111111111111111111111111111111111111111'')
      else if cmd = ''git '' @ log_format ''%b'' ''c2''
      then (0, ''Change-Id: I2222222222222222222222222222222222222222'')
      else (0, ''subject''))"

section \<open>Properties\<close>

subsection \<open>The plan\<close>

lemma dict_get_cases:
  "dict_get known c = None \<longleftrightarrow>
     Mapping.lookup known c = None \<or> Mapping.lookup known c = Some None"
  "dict_get known c = Some p \<longleftrightarrow> Mapping.lookup known c = Some (Some p)"
  by (auto simp: dict_get_def split: option.splits)

text \<open>
  C1, as amended. The plan classifies a local change in exactly one of three ways. It is
  a no-op exactly when the identifier is a key of the index mapped to a pull request
  whose head SHA is the commit SHA, an update exactly when it is mapped to a pull
  request whose head SHA differs, and a creation exactly when the identifier is absent
  from the index or is a key mapped to no pull request (a stack branch without an open
  pull request). The three action strings are distinct, so the cases exclude each other.
\<close>

theorem plan_classification:
  "(fst (plan_action known c commit) = ''nothing'' \<longleftrightarrow>
      (\<exists>pull. Mapping.lookup known c = Some (Some pull) \<and> sha (pr_head pull) = commit)) \<and>
   (fst (plan_action known c commit) = ''to update'' \<longleftrightarrow>
      (\<exists>pull. Mapping.lookup known c = Some (Some pull) \<and> sha (pr_head pull) \<noteq> commit)) \<and>
   (fst (plan_action known c commit) = ''to create'' \<longleftrightarrow>
      (Mapping.lookup known c = None \<or> Mapping.lookup known c = Some None)) \<and>
   fst (plan_action known c commit) \<in> {''nothing'', ''to update'', ''to create''}"
  by (cases "Mapping.lookup known c"; cases "the (Mapping.lookup known c)")
     (auto simp: plan_action_def dict_get_def)

text \<open>
  C1 as stated fails: an identifier that is a key of the index, mapped to no pull
  request, is planned as a creation although it is not absent from the index.
\<close>

theorem plan_create_counterexample:
  "fst (plan_action (Mapping.update ''I1'' None Mapping.empty) ''I1'' ''c1'') = ''to create'' \<and>
   ''I1'' \<in> Mapping.keys (Mapping.update ''I1'' (None :: PullRequest option) Mapping.empty)"
  by (simp add: plan_action_def dict_get_def)

lemma changeid_proj: "(\<lambda>(changeid, commit, title, message). changeid) = fst"
  by (simp add: fun_eq_iff)

text \<open>
  C2. The delete set is the set difference of the keys of the index and the identifiers
  of the local changes: an identifier is in it exactly when it is a key of the index,
  with or without a pull request, and no local change carries it.
\<close>

theorem delete_set_difference:
  "get_changeids_to_delete changes known = Mapping.keys known - fst ` set changes \<and>
   (c \<in> get_changeids_to_delete changes known \<longleftrightarrow>
      (Mapping.lookup known c = Some None \<or>
       (\<exists>pull. Mapping.lookup known c = Some (Some pull))) \<and>
      c \<notin> fst ` set changes)"
proof -
  have d: "get_changeids_to_delete changes known = Mapping.keys known - fst ` set changes"
    by (simp add: get_changeids_to_delete_def changeid_proj)
  have k: "c \<in> Mapping.keys known \<longleftrightarrow>
             Mapping.lookup known c = Some None \<or>
             (\<exists>pull. Mapping.lookup known c = Some (Some pull))"
    by (cases "Mapping.lookup known c") (auto simp: keys_dom_lookup)
  show ?thesis
    using k by (simp add: d)
qed

subsection \<open>Branch names\<close>

text \<open>
  C9. The builder names the stack branch of an identifier by the prefix followed by the
  identifier and creates the reference \<^verbatim>\<open>refs/heads/\<close> followed by that name; the
  index recovers the identifier from the reference. This holds for every identifier.
\<close>

theorem branch_round_trip:
  "branch_changeid stack_prefix (ref_branch (''refs/heads/'' @ stack_prefix @ changeid)) =
     changeid"
  by (simp add: branch_changeid_def ref_branch_def)

subsection \<open>The trailer\<close>

lemma digit_or_lower_alphabet:
  "digit_or_lower c \<longleftrightarrow> c \<in> set ''0123456789abcdefghijklmnopqrstuvwxyz''"
proof -
  have eq: "\<And>d. c = d \<longleftrightarrow> (of_char c :: nat) = of_char d" by simp
  show ?thesis
    unfolding digit_or_lower_def
    apply (simp add: eq)
    apply arith
    done
qed

text \<open>
  C6, as amended. The token accepted after the keyword \<^verbatim>\<open>Change-Id: \<close> is exactly the
  capital letter I followed by forty characters, each a digit or a lowercase letter from
  a to z: a match at the start of \<open>s\<close> with group \<open>g\<close> exists exactly when \<open>s\<close> is the
  keyword, then such a token \<open>g\<close>, then anything.
\<close>

theorem trailer_token_shape:
  "CHANGEID_RE_match s = Some (g, rest) \<longleftrightarrow>
     (\<exists>m. g = CHR ''I'' # m \<and> length m = 40 \<and>
          set m \<subseteq> set ''0123456789abcdefghijklmnopqrstuvwxyz'' \<and>
          s = ''Change-Id: '' @ g @ rest)"
proof -
  have "\<And>m. list_all digit_or_lower m \<longleftrightarrow>
          set m \<subseteq> set ''0123456789abcdefghijklmnopqrstuvwxyz''"
    unfolding list_all_iff digit_or_lower_alphabet by blast
  then show ?thesis
    by (simp only: CHANGEID_RE_match_iff)
qed

text \<open>
  C6 as stated fails: a token of forty letters z, none of them a hexadecimal digit, is
  matched; and a token that starts with the capital letter A is not.
\<close>

theorem trailer_token_counterexample:
  "findall ''Change-Id: Izzzzzzzzzzzzzzzzzzzzzzzzzzzzzzzzzzzzzzzz'' =
     [''Izzzzzzzzzzzzzzzzzzzzzzzzzzzzzzzzzzzzzzzz''] \<and>
   CHR ''z'' \<notin> set ''0123456789abcdef'' \<and>
   findall ''Change-Id: A0000000000000000000000000000000000000000'' = []"
  by code_simp

lemma no_match_without_C: "c \<noteq> CHR ''C'' \<Longrightarrow> CHANGEID_RE_match (c # cs) = None"
  by (simp add: CHANGEID_RE_match_def)

lemma occurrences_skip:
  "CHR ''C'' \<notin> set pre \<Longrightarrow> occurrences (pre @ rest) = occurrences rest"
  by (induction pre) (auto simp: no_match_without_C)

lemma digit_or_lower_not_C: "digit_or_lower c \<Longrightarrow> c \<noteq> CHR ''C''"
  by (auto simp: digit_or_lower_def)

text \<open>
  No two matches overlap, since a match has its only capital C at its start: the scan of
  \<open>findall\<close>, which resumes after each match, finds every occurrence.
\<close>

lemma findall_occurrences: "findall s = occurrences s"
proof (induction s rule: findall.induct)
  case 1
  show ?case by simp
next
  case (2 c cs)
  show ?case
  proof (cases "CHANGEID_RE_match (c # cs)")
    case None
    with 2(1) show ?thesis by simp
  next
    case (Some a)
    obtain g rest where a: "a = (g, rest)" by (cases a)
    from Some a obtain m where m: "g = CHR ''I'' # m" "list_all digit_or_lower m"
      and s: "c # cs = ''Change-Id: '' @ g @ rest"
      by (auto simp: CHANGEID_RE_match_iff)
    from s have cs: "cs = (''hange-Id: '' @ g) @ rest" by simp
    have "CHR ''C'' \<notin> set (''hange-Id: '' @ g)"
      using m digit_or_lower_not_C by (auto simp: list_all_iff)
    then have "occurrences cs = occurrences rest"
      unfolding cs by (rule occurrences_skip)
    with 2(2) [OF Some a [symmetric]] Some a show ?thesis by simp
  qed
qed

lemma git_ok:
  "run (''git '' @ args) = (0, out) \<Longrightarrow> git run args w = (Inr (strip out), w)"
  by (simp add: git_def)

text \<open>
  C7. Take a commit whose two \<^verbatim>\<open>git log\<close> commands succeed, with the body \<open>out_b\<close>
  and the subject \<open>out_s\<close>. The identifiers that \<open>findall\<close> returns for the message are
  all the occurrences of the trailer. When there is none, the loop of
  \<^verbatim>\<open>get_local_changes\<close> ends there with exit status 1, whatever commits remain, after
  a line that names the commit is printed. Otherwise the change of the commit carries the
  last occurrence, and the loop goes on.
\<close>

theorem last_trailer_or_abort:
  assumes b: "run (''git '' @ log_format ''%b'' commit) = (0, out_b)"
      and s: "run (''git '' @ log_format ''%s'' commit) = (0, out_s)"
  shows "findall (strip out_b) = occurrences (strip out_b) \<and>
     (occurrences (strip out_b) = [] \<longrightarrow>
        get_local_changes_loop run known (commit # commits) changes w =
          (Inl (SystemExit 1),
           console_log (''`Change-Id:` line is missing on commit '' @ commit) w)) \<and>
     (occurrences (strip out_b) \<noteq> [] \<longrightarrow>
        get_local_changes_loop run known (commit # commits) changes w =
          get_local_changes_loop run known commits
            (changes @ [(last (occurrences (strip out_b)), commit, strip out_s, strip out_b)])
            (console_log
               (plan_line known
                  (last (occurrences (strip out_b)), commit, strip out_s, strip out_b)) w))"
  by (simp add: git_ok [of run, OF b] git_ok [of run, OF s] findall_occurrences Let_def)

theorem last_trailer_or_abort_witness:
  "dup_shell (''git '' @ log_format ''%b'' ''c1'') =
     (0, ''Change-Id: I0000000000000000000000000000000000000000'') \<and>
   dup_shell (''git '' @ log_format ''%s'' ''c1'') = (0, ''subject'') \<and>
   occurrences (strip ''Change-Id: I0000000000000000000000000000000000000000'') \<noteq> [] \<and>
   get_local_changes_loop dup_shell Mapping.empty [''c1''] [] world0 =
     (Inr [(''I0000000000000000000000000000000000000000'', ''c1'', ''subject'',
            ''Change-Id: I0000000000000000000000000000000000000000'')],
      console_log
        (plan_line Mapping.empty
           (''I0000000000000000000000000000000000000000'', ''c1'', ''subject'',
            ''Change-Id: I0000000000000000000000000000000000000000'')) world0) \<and>
   bare_shell (''git '' @ log_format ''%b'' ''c1'') = (0, ''no trailer in this message'') \<and>
   bare_shell (''git '' @ log_format ''%s'' ''c1'') = (0, ''no trailer in this message'') \<and>
   occurrences (strip ''no trailer in this message'') = [] \<and>
   get_local_changes_loop bare_shell Mapping.empty [''c1'', ''c0''] [] world0 =
     (Inl (SystemExit 1),
      console_log ''`Change-Id:` line is missing on commit c1'' world0)"
proof -
  have b: "dup_shell (''git '' @ log_format ''%b'' ''c1'') =
     (0, ''Change-Id: I0000000000000000000000000000000000000000'')"
    by (simp add: dup_shell_def log_format_def)
  have s: "dup_shell (''git '' @ log_format ''%s'' ''c1'') = (0, ''subject'')"
    by (simp add: dup_shell_def log_format_def)
  have o: "occurrences ''Change-Id: I0000000000000000000000000000000000000000'' =
     [''I0000000000000000000000000000000000000000'']"
    by code_simp
  have st3: "strip ''no trailer in this message'' = ''no trailer in this message''"
    by code_simp
  have st: "strip ''Change-Id: I0000000000000000000000000000000000000000'' =
     ''Change-Id: I0000000000000000000000000000000000000000''"
    by code_simp
  have st2: "strip ''subject'' = ''subject''"
    by code_simp
  have b': "bare_shell (''git '' @ log_format ''%b'' ''c1'') = (0, ''no trailer in this message'')"
    by (simp add: bare_shell_def)
  have s': "bare_shell (''git '' @ log_format ''%s'' ''c1'') = (0, ''no trailer in this message'')"
    by (simp add: bare_shell_def)
  have o': "occurrences ''no trailer in this message'' = []"
    by code_simp
  note t1 = last_trailer_or_abort [of dup_shell "''c1''", OF b s, of Mapping.empty "[]" "[]" world0]
  note t2 = last_trailer_or_abort [of bare_shell "''c1''", OF b' s', of Mapping.empty "[''c0'']" "[]" world0]
  show ?thesis
    using t1 t2 b s b' s'
    by (simp add: o o' st st2 st3 del: findall.simps occurrences.simps)
qed

subsection \<open>Duplicate identifiers\<close>

lemma get_local_changes_loop_all:
  assumes "\<forall>commit \<in> set commits.
             fst (run (''git '' @ log_format ''%b'' commit)) = 0 \<and>
             fst (run (''git '' @ log_format ''%s'' commit)) = 0 \<and>
             findall (strip (snd (run (''git '' @ log_format ''%b'' commit)))) \<noteq> []"
  shows "fst (get_local_changes_loop run known commits changes w) =
           Inr (changes @ map (\<lambda>commit.
                  (last (findall (strip (snd (run (''git '' @ log_format ''%b'' commit))))),
                   commit,
                   strip (snd (run (''git '' @ log_format ''%s'' commit))),
                   strip (snd (run (''git '' @ log_format ''%b'' commit))))) commits)"
  using assms
proof (induction commits arbitrary: changes w)
  case Nil
  show ?case by simp
next
  case (Cons commit commits)
  obtain out_b where b: "run (''git '' @ log_format ''%b'' commit) = (0, out_b)"
    using Cons.prems by (cases "run (''git '' @ log_format ''%b'' commit)") auto
  obtain out_s where s: "run (''git '' @ log_format ''%s'' commit) = (0, out_s)"
    using Cons.prems by (cases "run (''git '' @ log_format ''%s'' commit)") auto
  have ne: "findall (strip out_b) \<noteq> []" using Cons.prems b by simp
  have rest: "\<forall>commit \<in> set commits.
             fst (run (''git '' @ log_format ''%b'' commit)) = 0 \<and>
             fst (run (''git '' @ log_format ''%s'' commit)) = 0 \<and>
             findall (strip (snd (run (''git '' @ log_format ''%b'' commit)))) \<noteq> []"
    using Cons.prems by simp
  show ?case
    using ne b s
    by (simp add: git_ok [of run, OF b] git_ok [of run, OF s] Let_def Cons.IH [OF rest])
qed

text \<open>
  C5, as amended. The planner does not compare the identifiers of the commits. When the
  \<^verbatim>\<open>git log\<close> commands of every commit succeed and every message has a trailer,
  \<^verbatim>\<open>get_local_changes\<close> returns one change for each commit, in the order of the
  commits, each with the last identifier of its message, also when two commits carry the
  same identifier: no error is raised for a duplicate.
\<close>

theorem duplicate_identifiers_accepted:
  assumes "\<forall>commit \<in> set commits.
             fst (run (''git '' @ log_format ''%b'' commit)) = 0 \<and>
             fst (run (''git '' @ log_format ''%s'' commit)) = 0 \<and>
             findall (strip (snd (run (''git '' @ log_format ''%b'' commit)))) \<noteq> []"
  shows "fst (get_local_changes run commits known w) =
           Inr (map (\<lambda>commit.
                  (last (findall (strip (snd (run (''git '' @ log_format ''%b'' commit))))),
                   commit,
                   strip (snd (run (''git '' @ log_format ''%s'' commit))),
                   strip (snd (run (''git '' @ log_format ''%b'' commit))))) commits)"
  using get_local_changes_loop_all [OF assms, of known "[]" w]
  by (simp add: get_local_changes_def)

theorem duplicate_identifiers_accepted_witness:
  "fst (dup_shell (''git '' @ log_format ''%b'' ''c2'')) = 0 \<and>
   fst (dup_shell (''git '' @ log_format ''%b'' ''c1'')) = 0 \<and>
   findall (strip (snd (dup_shell (''git '' @ log_format ''%b'' ''c2'')))) =
     [''I0000000000000000000000000000000000000000''] \<and>
   findall (strip (snd (dup_shell (''git '' @ log_format ''%b'' ''c1'')))) =
     [''I0000000000000000000000000000000000000000''] \<and>
   fst (get_local_changes dup_shell [''c2'', ''c1''] Mapping.empty world0) =
     Inr [(''I0000000000000000000000000000000000000000'', ''c2'', ''subject'',
           ''Change-Id: I0000000000000000000000000000000000000000''),
          (''I0000000000000000000000000000000000000000'', ''c1'', ''subject'',
           ''Change-Id: I0000000000000000000000000000000000000000'')]"
proof -
  have f: "findall ''Change-Id: I0000000000000000000000000000000000000000'' =
     [''I0000000000000000000000000000000000000000'']"
    by code_simp
  have st: "strip ''Change-Id: I0000000000000000000000000000000000000000'' =
     ''Change-Id: I0000000000000000000000000000000000000000''"
    by code_simp
  have st2: "strip ''subject'' = ''subject''"
    by code_simp
  have b: "dup_shell (''git '' @ log_format ''%b'' ''c2'') =
             (0, ''Change-Id: I0000000000000000000000000000000000000000'')"
          "dup_shell (''git '' @ log_format ''%b'' ''c1'') =
             (0, ''Change-Id: I0000000000000000000000000000000000000000'')"
          "dup_shell (''git '' @ log_format ''%s'' ''c2'') = (0, ''subject'')"
          "dup_shell (''git '' @ log_format ''%s'' ''c1'') = (0, ''subject'')"
    by (simp_all add: dup_shell_def log_format_def)
  have h: "\<forall>commit \<in> set [''c2'', ''c1''].
             fst (dup_shell (''git '' @ log_format ''%b'' commit)) = 0 \<and>
             fst (dup_shell (''git '' @ log_format ''%s'' commit)) = 0 \<and>
             findall (strip (snd (dup_shell (''git '' @ log_format ''%b'' commit)))) \<noteq> []"
    using b by (simp add: f st del: findall.simps)
  show ?thesis
    using duplicate_identifiers_accepted [OF h, of Mapping.empty world0] b
    by (simp add: f st st2 del: findall.simps)
qed

text \<open>
  C5 as stated fails: two commits carry the same identifier, the plan returns both
  changes, and the run, far from failing before any mutation, creates the branch
  references and the pull requests and ends without an error.
\<close>

lemmas run_defs = main_run_def get_local_changes_def git_def dup_shell_def log_format_def
  console_log_def plan_line_def plan_action_def dict_get_def last7_def
  get_changeids_to_delete_def create_or_update_stack_def client_get_def client_post_def
  client_patch_def client_post_content_def client_delete_def send_def comment_service_def
  reply_def check_for_status_def stack_line_def create_or_update_comments_def stack_body_def
  comment_entry_def first_line_def startswith_def comments_at_def world0_def Let_def
  READY_FOR_REVIEW_TEMPLATE_def set_body_def delete_stack_def

theorem duplicate_identifiers_counterexample:
  "fst (get_local_changes dup_shell [''c2'', ''c1''] Mapping.empty world0) =
     Inr [(''I0000000000000000000000000000000000000000'', ''c2'', ''subject'',
           ''Change-Id: I0000000000000000000000000000000000000000''),
          (''I0000000000000000000000000000000000000000'', ''c1'', ''subject'',
           ''Change-Id: I0000000000000000000000000000000000000000'')] \<and>
   (case main_run dup_shell comment_service False ''git_push_stack/topic/'' ''main''
           [''c2'', ''c1''] Mapping.empty world0 of
      (result, w) \<Rightarrow>
        result = Inr {} \<and>
        map (\<lambda>r. (req_method r, req_url r)) (sent w) =
          [(POST, ''git/refs''), (POST, ''pulls''), (POST, ''git/refs''), (POST, ''pulls''),
           (GET, ''issues/7/comments''), (POST, ''issues/7/comments''),
           (GET, ''issues/7/comments'')])"
proof -
  have f: "findall ''Change-Id: I0000000000000000000000000000000000000000'' =
     [''I0000000000000000000000000000000000000000'']"
    by code_simp
  have st: "strip ''Change-Id: I0000000000000000000000000000000000000000'' =
     ''Change-Id: I0000000000000000000000000000000000000000''"
    by code_simp
  have st2: "strip ''subject'' = ''subject''"
    by code_simp
  have plan: "fst (get_local_changes dup_shell [''c2'', ''c1''] Mapping.empty world0) =
     Inr [(''I0000000000000000000000000000000000000000'', ''c2'', ''subject'',
           ''Change-Id: I0000000000000000000000000000000000000000''),
          (''I0000000000000000000000000000000000000000'', ''c1'', ''subject'',
           ''Change-Id: I0000000000000000000000000000000000000000'')]"
    by (simp add: run_defs f st st2 del: findall.simps)
  have build: "(case main_run dup_shell comment_service False ''git_push_stack/topic/'' ''main''
           [''c2'', ''c1''] Mapping.empty world0 of
      (result, w) \<Rightarrow>
        result = Inr {} \<and>
        map (\<lambda>r. (req_method r, req_url r)) (sent w) =
          [(POST, ''git/refs''), (POST, ''pulls''), (POST, ''git/refs''), (POST, ''pulls''),
           (GET, ''issues/7/comments''), (POST, ''issues/7/comments''),
           (GET, ''issues/7/comments'')])"
    by (simp add: run_defs f st st2 del: findall.simps)
  from plan build show ?thesis by (rule conjI)
qed

subsection \<open>The pruner\<close>

lemma to_delete_subset: "get_changeids_to_delete changes known \<subseteq> Mapping.keys known"
  by (auto simp: get_changeids_to_delete_def)

text \<open>
  C10. An identifier of the delete set is a key of the index, so the subscript of
  \<^verbatim>\<open>delete_stack\<close> finds it: whatever the service answers, \<^verbatim>\<open>delete_stack\<close> never
  ends with a \<^verbatim>\<open>KeyError\<close> for an identifier of the delete set.
\<close>

theorem delete_lookup_succeeds:
  assumes "changeid \<in> get_changeids_to_delete changes known"
  shows "Mapping.lookup known changeid \<noteq> None \<and>
         (\<forall>k. fst (delete_stack client stack_prefix changeid known w) \<noteq> Inl (KeyError k))"
proof -
  from assms have "changeid \<in> Mapping.keys known"
    by (auto simp: get_changeids_to_delete_def)
  then obtain v where v: "Mapping.lookup known changeid = Some v"
    by (auto simp: keys_dom_lookup)
  show ?thesis
    by (cases v)
       (auto simp: delete_stack_def v check_for_status_def
             split: prod.splits option.splits if_splits)
qed

theorem delete_lookup_succeeds_witness:
  "''I2'' \<in> get_changeids_to_delete [(''I1'', ''c1'', ''subject'', ''message'')]
            (Mapping.update ''I2'' None (Mapping.update ''I1'' None Mapping.empty)) \<and>
   Mapping.lookup (Mapping.update ''I2'' (None :: PullRequest option)
                     (Mapping.update ''I1'' None Mapping.empty)) ''I2'' \<noteq> None \<and>
   fst (delete_stack comment_service ''git_push_stack/topic/'' ''I2''
          (Mapping.update ''I2'' None (Mapping.update ''I1'' None Mapping.empty)) world0) =
     Inr ()"
proof -
  have h: "''I2'' \<in> get_changeids_to_delete [(''I1'', ''c1'', ''subject'', ''message'')]
            (Mapping.update ''I2'' None (Mapping.update ''I1'' None Mapping.empty))"
    by (simp add: get_changeids_to_delete_def)
  have r: "fst (delete_stack comment_service ''git_push_stack/topic/'' ''I2''
          (Mapping.update ''I2'' None (Mapping.update ''I1'' None Mapping.empty)) world0) =
     Inr ()"
    by (simp add: run_defs)
  show ?thesis
    using delete_lookup_succeeds [OF h, of comment_service "''git_push_stack/topic/''" world0] h r
    by simp
qed

subsection \<open>The requests of the builder\<close>

lemma console_log_sent: "sent (console_log l w) = sent w"
  by (simp add: console_log_def)

lemma send_sent: "send client req w = (r, w1) \<Longrightarrow> sent w1 = sent w @ [req]"
  by (auto simp: send_def split: prod.splits)

text \<open>
  The ways \<^verbatim>\<open>create_or_update_stack\<close> can end, each with the requests it has sent:
  a failure of the reference request, of the update, of the transition or of the creation
  (the four first cases), and the four successes: nothing to do, an update kept as a
  draft, an update marked ready for review, and a creation.
\<close>

lemma create_or_update_stack_cases
  [case_names ref_failed update_failed ready_failed create_failed nothing updated_draft
     updated_ready created]:
  fixes client :: "'srv client"
  assumes "\<And>e. fst (create_or_update_stack client base dest changeid commit title message draft
                       known w) = Inl e \<Longrightarrow>
             sent (snd (create_or_update_stack client base dest changeid commit title message
                          draft known w)) =
               sent w @ [ref_request known changeid dest commit] \<Longrightarrow> thesis"
      and "\<And>e pull. fst (create_or_update_stack client base dest changeid commit title message
                            draft known w) = Inl e \<Longrightarrow>
             dict_get known changeid = Some pull \<Longrightarrow> sha (pr_head pull) \<noteq> commit \<Longrightarrow>
             sent (snd (create_or_update_stack client base dest changeid commit title message
                          draft known w)) =
               sent w @ [ref_request known changeid dest commit,
                         update_request pull title message dest base] \<Longrightarrow> thesis"
      and "\<And>e pull n. fst (create_or_update_stack client base dest changeid commit title message
                              draft known w) = Inl e \<Longrightarrow>
             dict_get known changeid = Some pull \<Longrightarrow> sha (pr_head pull) \<noteq> commit \<Longrightarrow>
             \<not> draft \<Longrightarrow>
             sent (snd (create_or_update_stack client base dest changeid commit title message
                          draft known w)) =
               sent w @ [ref_request known changeid dest commit,
                         update_request pull title message dest base, ready_request n] \<Longrightarrow> thesis"
      and "\<And>e. fst (create_or_update_stack client base dest changeid commit title message draft
                       known w) = Inl e \<Longrightarrow>
             dict_get known changeid = None \<Longrightarrow>
             sent (snd (create_or_update_stack client base dest changeid commit title message
                          draft known w)) =
               sent w @ [ref_request known changeid dest commit,
                         create_request title message draft dest base] \<Longrightarrow> thesis"
      and "\<And>pull. fst (create_or_update_stack client base dest changeid commit title message
                          draft known w) = Inr pull \<Longrightarrow>
             dict_get known changeid = Some pull \<Longrightarrow> sha (pr_head pull) = commit \<Longrightarrow>
             sent (snd (create_or_update_stack client base dest changeid commit title message
                          draft known w)) =
               sent w @ [ref_request known changeid dest commit] \<Longrightarrow> thesis"
      and "\<And>p pull. fst (create_or_update_stack client base dest changeid commit title message
                            draft known w) = Inr p \<Longrightarrow>
             dict_get known changeid = Some pull \<Longrightarrow> sha (pr_head pull) \<noteq> commit \<Longrightarrow>
             draft \<Longrightarrow>
             sent (snd (create_or_update_stack client base dest changeid commit title message
                          draft known w)) =
               sent w @ [ref_request known changeid dest commit,
                         update_request pull title message dest base] \<Longrightarrow> thesis"
      and "\<And>p pull. fst (create_or_update_stack client base dest changeid commit title message
                            draft known w) = Inr p \<Longrightarrow>
             dict_get known changeid = Some pull \<Longrightarrow> sha (pr_head pull) \<noteq> commit \<Longrightarrow>
             \<not> draft \<Longrightarrow>
             sent (snd (create_or_update_stack client base dest changeid commit title message
                          draft known w)) =
               sent w @ [ref_request known changeid dest commit,
                         update_request pull title message dest base,
                         ready_request (pr_number p)] \<Longrightarrow> thesis"
      and "\<And>p. fst (create_or_update_stack client base dest changeid commit title message draft
                       known w) = Inr p \<Longrightarrow>
             dict_get known changeid = None \<Longrightarrow>
             sent (snd (create_or_update_stack client base dest changeid commit title message
                          draft known w)) =
               sent w @ [ref_request known changeid dest commit,
                         create_request title message draft dest base] \<Longrightarrow> thesis"
  shows thesis
proof -
  let ?c = "create_or_update_stack client base dest changeid commit title message draft known w"
  define ref where "ref = ref_request known changeid dest commit"
  note a = assms [folded ref_def]
  obtain r w1 where s1: "send client ref w = (r, w1)"
    by (cases "send client ref w")
  have e1: "(if changeid \<in> Mapping.keys known
             then client_patch client (''git/refs/heads/'' @ dest)
                    [(''sha'', JStr commit), (''force'', JBool True)] w
             else client_post client ''git/refs''
                    [(''ref'', JStr (''refs/heads/'' @ dest)), (''sha'', JStr commit)] w) = (r, w1)"
    using s1 unfolding ref_def client_patch_def client_post_def
    by (cases "changeid \<in> Mapping.keys known") (simp_all only: if_True if_False)
  have w1: "sent w1 = sent w @ [ref]"
    using s1 by (rule send_sent)
  have c: "?c =
    (case check_for_status r of
       Some e \<Rightarrow> (Inl e, w1)
     | None \<Rightarrow>
         (case dict_get known changeid of
            Some pull \<Rightarrow>
              if sha (pr_head pull) = commit
              then (Inr pull, console_log (stack_line ''nothing'' commit pull changeid) w1)
              else
                (case client_patch client (''pulls/'' @ pr_number pull)
                        [(''title'', JStr title), (''body'', JStr message),
                         (''head'', JStr dest), (''base'', JStr base)] w1 of
                   (r2, w2) \<Rightarrow>
                     (case check_for_status r2 of
                        Some e \<Rightarrow> (Inl e, w2)
                      | None \<Rightarrow>
                          (let pull2 = json_pull r2
                           in if \<not> draft
                              then
                                (case client_post_content client ''/graghql''
                                        (READY_FOR_REVIEW_TEMPLATE (pr_number pull2)) w2 of
                                   (r3, w3) \<Rightarrow>
                                     (case check_for_status r3 of
                                        Some e \<Rightarrow> (Inl e, w3)
                                      | None \<Rightarrow>
                                          (Inr pull2,
                                           console_log
                                             (stack_line ''updated'' commit pull2 changeid) w3)))
                              else (Inr pull2,
                                    console_log
                                      (stack_line ''updated'' commit pull2 changeid) w2))))
          | None \<Rightarrow>
              (case client_post client ''pulls''
                      [(''title'', JStr title), (''body'', JStr message),
                       (''draft'', JBool draft),
                       (''head'', JStr dest), (''base'', JStr base)] w1 of
                 (r2, w2) \<Rightarrow>
                   (case check_for_status r2 of
                      Some e \<Rightarrow> (Inl e, w2)
                    | None \<Rightarrow>
                        (let pull2 = json_pull r2
                         in (Inr pull2,
                             console_log
                               (stack_line ''created'' commit pull2 changeid) w2))))))"
    unfolding create_or_update_stack_def e1 by (simp only: prod.case)
  show ?thesis
  proof (cases "check_for_status r")
    case (Some e)
    have "?c = (Inl e, w1)"
      unfolding c Some by (simp only: option.case)
    then show ?thesis
      using w1 by (intro a(1) [of e]) simp_all
  next
    case None
    note ok1 = None
    show ?thesis
    proof (cases "dict_get known changeid")
      case None
      define req2 where "req2 = create_request title message draft dest base"
      obtain r2 w2 where s2: "send client req2 w1 = (r2, w2)"
        by (cases "send client req2 w1")
      have w2: "sent w2 = sent w @ [ref, req2]"
        using send_sent [OF s2] w1 by simp
      have c2: "?c = (case check_for_status r2 of
                        Some e \<Rightarrow> (Inl e, w2)
                      | None \<Rightarrow>
                          (Inr (json_pull r2),
                           console_log
                             (stack_line ''created'' commit (json_pull r2) changeid) w2))"
        unfolding c ok1 None
        by (simp only: option.case client_post_def req2_def [symmetric] s2 prod.case Let_def)
      show ?thesis
      proof (cases "check_for_status r2")
        case (Some e)
        have "?c = (Inl e, w2)"
          unfolding c2 Some by (simp only: option.case)
        then show ?thesis
          using w2 None unfolding req2_def by (intro a(4) [of e]) simp_all
      next
        case ok2: None
        have "fst ?c = Inr (json_pull r2)" "sent (snd ?c) = sent w2"
          unfolding c2 ok2 by (simp_all only: option.case fst_conv snd_conv console_log_sent)
        then show ?thesis
          using w2 None unfolding req2_def by (intro a(8) [of "json_pull r2"]) simp_all
      qed
    next
      case (Some pull)
      note known = Some
      show ?thesis
      proof (cases "sha (pr_head pull) = commit")
        case True
        have "fst ?c = Inr pull" "sent (snd ?c) = sent w1"
          unfolding c ok1 known
          by (simp_all only: option.case if_P [OF True] fst_conv snd_conv console_log_sent)
        then show ?thesis
          using w1 known True by (intro a(5) [of pull]) simp_all
      next
        case False
        define req2 where "req2 = update_request pull title message dest base"
        obtain r2 w2 where s2: "send client req2 w1 = (r2, w2)"
          by (cases "send client req2 w1")
        have w2: "sent w2 = sent w @ [ref, req2]"
          using send_sent [OF s2] w1 by simp
        have c2: "?c =
          (case check_for_status r2 of
             Some e \<Rightarrow> (Inl e, w2)
           | None \<Rightarrow>
               if \<not> draft
               then
                 (case client_post_content client ''/graghql''
                         (READY_FOR_REVIEW_TEMPLATE (pr_number (json_pull r2))) w2 of
                    (r3, w3) \<Rightarrow>
                      (case check_for_status r3 of
                         Some e \<Rightarrow> (Inl e, w3)
                       | None \<Rightarrow>
                           (Inr (json_pull r2),
                            console_log
                              (stack_line ''updated'' commit (json_pull r2) changeid) w3)))
               else (Inr (json_pull r2),
                     console_log
                       (stack_line ''updated'' commit (json_pull r2) changeid) w2))"
          unfolding c ok1 known
          by (simp only: option.case False if_False client_patch_def req2_def [symmetric] s2
                prod.case Let_def)
        show ?thesis
        proof (cases "check_for_status r2")
          case (Some e)
          have "?c = (Inl e, w2)"
            unfolding c2 Some by (simp only: option.case)
          then show ?thesis
            using w2 known False unfolding req2_def by (intro a(2) [of e pull]) simp_all
        next
          case ok2: None
          show ?thesis
          proof (cases draft)
            case True
            have "fst ?c = Inr (json_pull r2)" "sent (snd ?c) = sent w2"
              unfolding c2 ok2
              by (simp_all only: option.case True not_True_eq_False if_False fst_conv snd_conv
                    console_log_sent)
            then show ?thesis
              using w2 known False True unfolding req2_def
              by (intro a(6) [of "json_pull r2" pull]) simp_all
          next
            case nd: False
            define req3 where "req3 = ready_request (pr_number (json_pull r2))"
            obtain r3 w3 where s3: "send client req3 w2 = (r3, w3)"
              by (cases "send client req3 w2")
            have w3: "sent w3 = sent w @ [ref, req2, req3]"
              using send_sent [OF s3] w2 by simp
            have c3: "?c = (case check_for_status r3 of
                              Some e \<Rightarrow> (Inl e, w3)
                            | None \<Rightarrow>
                                (Inr (json_pull r2),
                                 console_log
                                   (stack_line ''updated'' commit (json_pull r2) changeid) w3))"
              unfolding c2 ok2
              by (simp only: option.case nd not_False_eq_True if_True client_post_content_def
                    req3_def [symmetric] s3 prod.case)
            show ?thesis
            proof (cases "check_for_status r3")
              case (Some e)
              have "?c = (Inl e, w3)"
                unfolding c3 Some by (simp only: option.case)
              then show ?thesis
                using w3 known False nd unfolding req2_def req3_def
                by (intro a(3) [of e pull "pr_number (json_pull r2)"]) simp_all
            next
              case ok3: None
              have "fst ?c = Inr (json_pull r2)" "sent (snd ?c) = sent w3"
                unfolding c3 ok3
                by (simp_all only: option.case fst_conv snd_conv console_log_sent)
              then show ?thesis
                using w3 known False nd unfolding req2_def req3_def
                by (intro a(7) [of "json_pull r2" pull]) simp_all
            qed
          qed
        qed
      qed
    qed
  qed
qed

text \<open>
  What the requests of one entry say about the base and the head branch: no request
  carries another base or another head than the ones passed, and an entry that is created
  or updated with success has sent a request that carries both.
\<close>

lemma create_or_update_stack_base_head:
  fixes client :: "'srv client"
  shows "\<exists>reqs.
           sent (snd (create_or_update_stack client base dest changeid commit title message
                        draft known w)) = sent w @ reqs \<and>
           (\<forall>req\<in>set reqs.
              map_of (req_json req) ''base'' \<in> {None, Some (JStr base)} \<and>
              map_of (req_json req) ''head'' \<in> {None, Some (JStr dest)}) \<and>
           (\<forall>p. fst (create_or_update_stack client base dest changeid commit title message
                        draft known w) = Inr p \<longrightarrow>
                \<not> (\<exists>pull. dict_get known changeid = Some pull \<and> sha (pr_head pull) = commit) \<longrightarrow>
                (\<exists>req\<in>set reqs.
                   map_of (req_json req) ''base'' = Some (JStr base) \<and>
                   map_of (req_json req) ''head'' = Some (JStr dest)))"
proof (cases rule: create_or_update_stack_cases
         [of client base dest changeid commit title message draft known w])
  case (ref_failed e)
  then show ?thesis by simp
next
  case (update_failed e pull)
  then show ?thesis by simp
next
  case (ready_failed e pull n)
  then show ?thesis by simp
next
  case (create_failed e)
  then show ?thesis by simp
next
  case (nothing pull)
  then show ?thesis by simp
next
  case (updated_draft p pull)
  then show ?thesis by simp
next
  case (updated_ready p pull)
  then show ?thesis by simp
next
  case (created p)
  then show ?thesis by simp
qed

text \<open>
  What they say about the draft flag and the transition to ready for review: no request
  carries another draft flag than the one passed; the transition is requested only when
  the flag is false and the entry is an update; a creation that succeeds has sent the
  flag, and an update that succeeds with the flag false has requested the transition.
\<close>

lemma create_or_update_stack_draft:
  fixes client :: "'srv client"
  shows "\<exists>reqs.
           sent (snd (create_or_update_stack client base dest changeid commit title message
                        draft known w)) = sent w @ reqs \<and>
           (\<forall>req\<in>set reqs.
              map_of (req_json req) ''draft'' \<in> {None, Some (JBool draft)} \<and>
              (req_url req = ''/graghql'' \<longrightarrow>
                 \<not> draft \<and>
                 (\<exists>pull. dict_get known changeid = Some pull \<and> sha (pr_head pull) \<noteq> commit))) \<and>
           (\<forall>p. fst (create_or_update_stack client base dest changeid commit title message
                        draft known w) = Inr p \<longrightarrow>
                (dict_get known changeid = None \<longrightarrow>
                   (\<exists>req\<in>set reqs. map_of (req_json req) ''draft'' = Some (JBool draft))) \<and>
                (\<not> draft \<and>
                 (\<exists>pull. dict_get known changeid = Some pull \<and> sha (pr_head pull) \<noteq> commit) \<longrightarrow>
                   (\<exists>req\<in>set reqs. req_method req = POST \<and> req_url req = ''/graghql'')))"
proof (cases rule: create_or_update_stack_cases
         [of client base dest changeid commit title message draft known w])
  case (ref_failed e)
  then show ?thesis by simp
next
  case (update_failed e pull)
  then show ?thesis by simp
next
  case (ready_failed e pull n)
  then show ?thesis by simp
next
  case (create_failed e)
  then show ?thesis by simp
next
  case (nothing pull)
  then show ?thesis by simp
next
  case (updated_draft p pull)
  then show ?thesis by simp
next
  case (updated_ready p pull)
  then show ?thesis by simp
next
  case (created p)
  then show ?thesis by simp
qed

subsection \<open>The loop of the builder\<close>

text \<open>
  The loop over a list that is two lists in a row runs over the first and, when that
  succeeds, over the second, with the base branch and the draft flag the first has left.
\<close>

lemma main_loop_append:
  "main_loop client stack_prefix known (xs @ ys) b d pulls w =
     (case main_loop client stack_prefix known xs b d pulls w of
        (Inl e, w1) \<Rightarrow> (Inl e, w1)
      | (Inr pulls1, w1) \<Rightarrow>
          main_loop client stack_prefix known ys
            (if xs = [] then b else stack_prefix @ fst (last xs)) (d \<or> xs \<noteq> []) pulls1 w1)"
proof (induction xs arbitrary: b d pulls w)
  case Nil
  show ?case by simp
next
  case (Cons x xs)
  obtain changeid commit title message where x: "x = (changeid, commit, title, message)"
    by (cases x)
  obtain r w1 where c:
    "create_or_update_stack client b (stack_prefix @ changeid) changeid commit title
       (message @ (if pulls \<noteq> []
                   then [CHR 0x0A, CHR 0x0A] @ ''Depends-On: #'' @ pr_number (last pulls)
                   else []))
       d known w = (r, w1)"
    by (cases "create_or_update_stack client b (stack_prefix @ changeid) changeid commit title
       (message @ (if pulls \<noteq> []
                   then [CHR 0x0A, CHR 0x0A] @ ''Depends-On: #'' @ pr_number (last pulls)
                   else []))
       d known w")
  show ?case
  proof (cases r)
    case (Inl e)
    with c show ?thesis
      unfolding x by (simp add: Let_def split del: if_split)
  next
    case (Inr pull)
    have L: "main_loop client stack_prefix known (x # xs @ ys) b d pulls w =
               main_loop client stack_prefix known (xs @ ys) (stack_prefix @ changeid) True
                 (pulls @ [pull]) w1"
      using c Inr unfolding x by (simp add: Let_def split del: if_split)
    have R: "main_loop client stack_prefix known (x # xs) b d pulls w =
               main_loop client stack_prefix known xs (stack_prefix @ changeid) True
                 (pulls @ [pull]) w1"
      using c Inr unfolding x by (simp add: Let_def split del: if_split)
    have h1: "(if x # xs = [] then b else stack_prefix @ fst (last (x # xs))) =
              (if xs = [] then stack_prefix @ changeid else stack_prefix @ fst (last xs))"
      by (simp add: x)
    have h2: "(d \<or> x # xs \<noteq> []) = (True \<or> xs \<noteq> [])"
      by simp
    show ?thesis
      by (simp only: append_Cons L R Cons.IH h1 h2)
  qed
qed

text \<open>
  One more entry: when the loop over the first \<open>k\<close> entries succeeds, the loop over
  the first \<open>k + 1\<close> is one call of \<^verbatim>\<open>create_or_update_stack\<close> more.
\<close>

lemma main_loop_step:
  assumes k: "k < length changes"
      and pre: "main_loop client stack_prefix known (take k changes) base_branch False [] w =
                  (Inr pulls, wk)"
      and ck: "changes ! k = (changeid, commit, title, message)"
  shows "main_loop client stack_prefix known (take (Suc k) changes) base_branch False [] w =
           (case create_or_update_stack client
                   (if k = 0 then base_branch else stack_prefix @ fst (changes ! (k - 1)))
                   (stack_prefix @ changeid) changeid commit title
                   (message @ (if pulls \<noteq> []
                               then [CHR 0x0A, CHR 0x0A] @ ''Depends-On: #''
                                      @ pr_number (last pulls)
                               else []))
                   (0 < k) known wk of
              (Inl e, w1) \<Rightarrow> (Inl e, w1)
            | (Inr pull, w1) \<Rightarrow> (Inr (pulls @ [pull]), w1))"
proof -
  let ?base = "if k = 0 then base_branch else stack_prefix @ fst (changes ! (k - 1))"
  let ?msg = "message @ (if pulls \<noteq> []
                         then [CHR 0x0A, CHR 0x0A] @ ''Depends-On: #'' @ pr_number (last pulls)
                         else [])"
  have t: "take (Suc k) changes = take k changes @ [(changeid, commit, title, message)]"
    using k ck by (simp add: take_Suc_conv_app_nth)
  have l: "last (take k changes) = changes ! (k - 1)" if "0 < k"
  proof -
    have "take k changes \<noteq> []" using k that by auto
    then have "last (take k changes) = take k changes ! (length (take k changes) - 1)"
      by (rule last_conv_nth)
    also have "\<dots> = changes ! (k - 1)" using k that by simp
    finally show ?thesis .
  qed
  have b: "(if take k changes = [] then base_branch
            else stack_prefix @ fst (last (take k changes))) = ?base"
    using k l by (cases k) auto
  have d: "(False \<or> take k changes \<noteq> []) = (0 < k)"
    using k by auto
  have s: "main_loop client stack_prefix known (take (Suc k) changes) base_branch False [] w =
             main_loop client stack_prefix known [(changeid, commit, title, message)]
               ?base (0 < k) pulls wk"
    unfolding t main_loop_append pre b d by simp
  obtain r w1 where c:
    "create_or_update_stack client ?base (stack_prefix @ changeid) changeid commit title
       ?msg (0 < k) known wk = (r, w1)"
    by (cases "create_or_update_stack client ?base (stack_prefix @ changeid) changeid commit
                 title ?msg (0 < k) known wk")
  show ?thesis
    unfolding s
    using c by (cases r) (simp_all add: Let_def split del: if_split)
qed


subsection \<open>The comments\<close>

lemma send_snd_sent: "sent (snd (send client req w)) = sent w @ [req]"
  by (simp add: send_def split: prod.split)

text \<open>
  The inner loop over the comments of one pull request sends at most one request, chosen
  by the first comment that starts with the header.
\<close>

lemma sync_comment_sent:
  "sent (sync_comment client body pull comments w) =
     sent w @
       (case find (\<lambda>c. startswith (comment_body c) first_line) comments of
          None \<Rightarrow>
            [Request POST (''issues/'' @ pr_number pull @ ''/comments'') []
               [(''body'', JStr body)] []]
        | Some c \<Rightarrow>
            if comment_body c \<noteq> body
            then [Request PATCH (comment_url c) [] [(''body'', JStr body)] []]
            else [])"
proof (induction comments)
  case Nil
  show ?case
    by (simp add: client_post_def send_snd_sent)
next
  case (Cons c comments)
  show ?case
  proof (cases "startswith (comment_body c) first_line")
    case True
    then show ?thesis
      by (simp add: client_patch_def send_snd_sent)
  next
    case False
    then show ?thesis
      using Cons.IH by simp
  qed
qed

lemma sync_comment_same:
  assumes "find (\<lambda>c. startswith (comment_body c) first_line) comments = Some c"
      and "comment_body c = body"
  shows "sync_comment client body pull comments w = w"
  using assms
proof (induction comments)
  case Nil
  then show ?case by simp
next
  case (Cons a comments)
  show ?case
  proof (cases "startswith (comment_body a) first_line")
    case True
    with Cons.prems show ?thesis by simp
  next
    case False
    with Cons show ?thesis by simp
  qed
qed

text \<open>
  A run of the synchronizer over listings whose first header comment is the body sends
  nothing but the requests that list the comments. \<open>I\<close> is any set of states of the
  service that the listings do not leave.
\<close>

lemma sync_pulls_reads:
  fixes client :: "'srv client"
  assumes stable: "\<And>s req. I s \<Longrightarrow> req_method req = GET \<Longrightarrow> I (snd (client req s))"
      and listed: "\<And>pull s. pull \<in> set ps \<Longrightarrow> I s \<Longrightarrow>
                     \<exists>c. find (\<lambda>c. startswith (comment_body c) first_line)
                               (json_comments
                                  (fst (client (Request GET (''issues/'' @ pr_number pull
                                                               @ ''/comments'') [] [] []) s))) =
                            Some c \<and>
                          comment_body c = body"
      and start: "I (server w)"
  shows "\<exists>reqs. sent (snd (sync_pulls client body ps w)) = sent w @ reqs \<and>
                (\<forall>req\<in>set reqs. req_method req = GET)"
  using listed start
proof (induction ps arbitrary: w)
  case Nil
  show ?case by simp
next
  case (Cons pull ps)
  let ?req = "Request GET (''issues/'' @ pr_number pull @ ''/comments'') [] [] []"
  obtain r s where c: "client ?req (server w) = (r, s)"
    by (cases "client ?req (server w)")
  let ?w1 = "w\<lparr>server := s, sent := sent w @ [?req]\<rparr>"
  have g: "client_get client (''issues/'' @ pr_number pull @ ''/comments'') [] w = (r, ?w1)"
    unfolding client_get_def send_def c by (simp only: prod.case)
  have s: "I s"
    using stable [OF Cons.prems(2), of ?req] unfolding c by simp
  have step: "sync_pulls client body (pull # ps) w =
                (case check_for_status r of
                   Some e \<Rightarrow> (Inl e, ?w1)
                 | None \<Rightarrow>
                     sync_pulls client body ps
                       (sync_comment client body pull (json_comments r) ?w1))"
    unfolding sync_pulls.simps g by (simp only: prod.case)
  show ?case
  proof (cases "check_for_status r")
    case (Some e)
    have "sent (snd (sync_pulls client body (pull # ps) w)) = sent w @ [?req]"
      unfolding step Some by simp
    moreover have "\<forall>req\<in>set [?req]. req_method req = GET"
      by simp
    ultimately show ?thesis
      by blast
  next
    case None
    obtain cm where f: "find (\<lambda>c. startswith (comment_body c) first_line) (json_comments r) =
                          Some cm"
      and b: "comment_body cm = body"
      using Cons.prems(1) [of pull "server w", OF _ Cons.prems(2)] unfolding c by auto
    have same: "sync_comment client body pull (json_comments r) ?w1 = ?w1"
      using f b by (rule sync_comment_same)
    have next_step: "sync_pulls client body (pull # ps) w = sync_pulls client body ps ?w1"
      unfolding step None same by (simp only: option.case)
    have "\<exists>reqs. sent (snd (sync_pulls client body ps ?w1)) = sent ?w1 @ reqs \<and>
                 (\<forall>req\<in>set reqs. req_method req = GET)"
    proof (rule Cons.IH)
      fix p t
      assume "p \<in> set ps" and "I t"
      then show "\<exists>c. find (\<lambda>c. startswith (comment_body c) first_line)
                          (json_comments
                             (fst (client (Request GET (''issues/'' @ pr_number p
                                                          @ ''/comments'') [] [] []) t))) =
                       Some c \<and>
                     comment_body c = body"
        using Cons.prems(1) [of p t] by simp
    next
      show "I (server ?w1)"
        using s by simp
    qed
    then obtain reqs where r1: "sent (snd (sync_pulls client body ps ?w1)) = sent ?w1 @ reqs"
      and r2: "\<forall>req\<in>set reqs. req_method req = GET"
      by (elim exE conjE)
    have "sent (snd (sync_pulls client body (pull # ps) w)) = sent w @ (?req # reqs)"
      unfolding next_step r1 by simp
    moreover have "\<forall>req\<in>set (?req # reqs). req_method req = GET"
      using r2 by simp
    ultimately show ?thesis
      by blast
  qed
qed

text \<open>
  C8. For one pull request, the synchronizer looks at the first listed comment that
  starts with the header: it sends one \<^verbatim>\<open>PATCH\<close> of that comment when there is one and
  its body differs from the body of the stack, nothing when there is one and its body is
  the body of the stack, and one \<^verbatim>\<open>POST\<close> of a new comment when there is none.
  So a run over a stack every pull request of which lists, as first header comment, a
  comment with the body of the stack, writes nothing: all its requests are the listings.
  (\<open>I\<close> is a set of states of the service that contains the state at the start and that
  the listings do not leave; the listings are those of the states of \<open>I\<close>.)
\<close>

theorem comment_sync_idempotent:
  "sent (sync_comment client body pull comments w) =
     sent w @
       (case find (\<lambda>c. startswith (comment_body c) first_line) comments of
          None \<Rightarrow>
            [Request POST (''issues/'' @ pr_number pull @ ''/comments'') []
               [(''body'', JStr body)] []]
        | Some c \<Rightarrow>
            if comment_body c \<noteq> body
            then [Request PATCH (comment_url c) [] [(''body'', JStr body)] []]
            else []) \<and>
   (I (server w0) \<and>
    (\<forall>s req. I s \<and> req_method req = GET \<longrightarrow> I (snd (client req s))) \<and>
    (\<forall>p\<in>set pulls. \<forall>s. I s \<longrightarrow>
       (\<exists>c. find (\<lambda>c. startswith (comment_body c) first_line)
               (json_comments
                  (fst (client (Request GET (''issues/'' @ pr_number p @ ''/comments'')
                                  [] [] []) s))) = Some c \<and>
            comment_body c = stack_body pulls)) \<longrightarrow>
    (\<exists>reqs. sent (snd (create_or_update_comments client pulls w0)) = sent w0 @ reqs \<and>
            (\<forall>req\<in>set reqs. req_method req = GET)))"
proof (intro conjI impI)
  show "sent (sync_comment client body pull comments w) =
     sent w @
       (case find (\<lambda>c. startswith (comment_body c) first_line) comments of
          None \<Rightarrow>
            [Request POST (''issues/'' @ pr_number pull @ ''/comments'') []
               [(''body'', JStr body)] []]
        | Some c \<Rightarrow>
            if comment_body c \<noteq> body
            then [Request PATCH (comment_url c) [] [(''body'', JStr body)] []]
            else [])"
    by (rule sync_comment_sent)
next
  assume a: "I (server w0) \<and>
    (\<forall>s req. I s \<and> req_method req = GET \<longrightarrow> I (snd (client req s))) \<and>
    (\<forall>p\<in>set pulls. \<forall>s. I s \<longrightarrow>
       (\<exists>c. find (\<lambda>c. startswith (comment_body c) first_line)
               (json_comments
                  (fst (client (Request GET (''issues/'' @ pr_number p @ ''/comments'')
                                  [] [] []) s))) = Some c \<and>
            comment_body c = stack_body pulls))"
  show "\<exists>reqs. sent (snd (create_or_update_comments client pulls w0)) = sent w0 @ reqs \<and>
            (\<forall>req\<in>set reqs. req_method req = GET)"
    unfolding create_or_update_comments_def
  proof (rule sync_pulls_reads [where I = I])
    fix s req
    assume "I s" and "req_method req = GET"
    with a show "I (snd (client req s))" by blast
  next
    fix p s
    assume "p \<in> set pulls" and "I s"
    with a show "\<exists>c. find (\<lambda>c. startswith (comment_body c) first_line)
               (json_comments
                  (fst (client (Request GET (''issues/'' @ pr_number p @ ''/comments'')
                                  [] [] []) s))) = Some c \<and>
            comment_body c = stack_body pulls"
      by blast
  next
    from a show "I (server w0)" by blast
  qed
qed

theorem comment_sync_idempotent_witness:
  "map (\<lambda>r. (req_method r, req_url r))
     (sent (snd (create_or_update_comments comment_service
                   [\<lparr>pr_html_url = ''https://host/pull/5'', pr_number = ''5'',
                     pr_title = ''first'', pr_head = \<lparr>sha = ''c1''\<rparr>, pr_state = ''open''\<rparr>,
                    \<lparr>pr_html_url = ''https://host/pull/6'', pr_number = ''6'',
                     pr_title = ''second'', pr_head = \<lparr>sha = ''c2''\<rparr>, pr_state = ''open''\<rparr>]
                   (snd (create_or_update_comments comment_service
                           [\<lparr>pr_html_url = ''https://host/pull/5'', pr_number = ''5'',
                             pr_title = ''first'', pr_head = \<lparr>sha = ''c1''\<rparr>,
                             pr_state = ''open''\<rparr>,
                            \<lparr>pr_html_url = ''https://host/pull/6'', pr_number = ''6'',
                             pr_title = ''second'', pr_head = \<lparr>sha = ''c2''\<rparr>,
                             pr_state = ''open''\<rparr>]
                           world0))))) =
     [(GET, ''issues/5/comments''), (POST, ''issues/5/comments''),
      (GET, ''issues/6/comments''), (POST, ''issues/6/comments''),
      (GET, ''issues/5/comments''), (GET, ''issues/6/comments'')]"
proof -
  let ?ps = "[\<lparr>pr_html_url = ''https://host/pull/5'', pr_number = ''5'',
                pr_title = ''first'', pr_head = \<lparr>sha = ''c1''\<rparr>, pr_state = ''open''\<rparr>,
               \<lparr>pr_html_url = ''https://host/pull/6'', pr_number = ''6'',
                pr_title = ''second'', pr_head = \<lparr>sha = ''c2''\<rparr>, pr_state = ''open''\<rparr>]"
  let ?w1 = "snd (create_or_update_comments comment_service ?ps world0)"
  have h1: "server ?w1 = server ?w1"
    by (rule refl)
  have h2: "\<forall>s req. s = server ?w1 \<and> req_method req = GET \<longrightarrow>
              snd (comment_service req s) = server ?w1"
    by (simp add: comment_service_def)
  have h3: "\<forall>p\<in>set ?ps. \<forall>s. s = server ?w1 \<longrightarrow>
       (\<exists>c. find (\<lambda>c. startswith (comment_body c) first_line)
               (json_comments
                  (fst (comment_service
                          (Request GET (''issues/'' @ pr_number p @ ''/comments'') [] [] []) s))) =
               Some c \<and>
            comment_body c = stack_body ?ps)"
    by (simp add: run_defs)
  have r: "map (\<lambda>r. (req_method r, req_url r))
             (sent (snd (create_or_update_comments comment_service ?ps ?w1))) =
     [(GET, ''issues/5/comments''), (POST, ''issues/5/comments''),
      (GET, ''issues/6/comments''), (POST, ''issues/6/comments''),
      (GET, ''issues/5/comments''), (GET, ''issues/6/comments'')]"
    by (simp add: run_defs)
  from comment_sync_idempotent
         [where client = comment_service and I = "\<lambda>s. s = server ?w1" and ?w0.0 = ?w1
            and pulls = ?ps,
          THEN conjunct2, THEN mp, OF conjI [OF h1 conjI [OF h2 h3]]] r
  show ?thesis
    by simp
qed

subsection \<open>The requests of a run\<close>

text \<open>The plan sends no request: \<^verbatim>\<open>git\<close> only writes to the console.\<close>

lemma git_sent: "sent (snd (git run args w)) = sent w"
  by (simp add: git_def console_log_sent split: prod.split)

lemma get_local_changes_loop_sent:
  "sent (snd (get_local_changes_loop run known commits changes w)) = sent w"
proof (induction commits arbitrary: changes w)
  case Nil
  show ?case by simp
next
  case (Cons commit commits)
  obtain r1 w1 where g1: "git run (log_format ''%b'' commit) w = (r1, w1)"
    by (cases "git run (log_format ''%b'' commit) w")
  have s1: "sent w1 = sent w"
    using git_sent [of run "log_format ''%b'' commit" w] unfolding g1 by simp
  show ?case
  proof (cases r1)
    case (Inl e)
    then show ?thesis
      using s1 by (simp only: get_local_changes_loop.simps g1 prod.case sum.case snd_conv)
  next
    case m: (Inr message)
    obtain r2 w2 where g2: "git run (log_format ''%s'' commit) w1 = (r2, w2)"
      by (cases "git run (log_format ''%s'' commit) w1")
    have s2: "sent w2 = sent w"
      using git_sent [of run "log_format ''%s'' commit" w1] s1 unfolding g2 by simp
    show ?thesis
    proof (cases r2)
      case (Inl e)
      then show ?thesis
        using s2 m
        by (simp only: get_local_changes_loop.simps g1 g2 prod.case sum.case snd_conv)
    next
      case (Inr title)
      show ?thesis
      proof (cases "findall message = []")
        case True
        then show ?thesis
          using s2 m Inr
          by (simp add: g1 g2 Let_def console_log_sent)
      next
        case False
        then show ?thesis
          using s2 m Inr
          by (simp add: g1 g2 Let_def console_log_sent Cons.IH)
      qed
    qed
  qed
qed

text \<open>Every call of \<^verbatim>\<open>create_or_update_stack\<close> starts with the reference request.\<close>

lemma create_or_update_stack_extends:
  fixes client :: "'srv client"
  shows "\<exists>reqs. sent (snd (create_or_update_stack client base dest changeid commit title message
                              draft known w)) =
                  sent w @ ref_request known changeid dest commit # reqs"
  by (cases rule: create_or_update_stack_cases
        [of client base dest changeid commit title message draft known w])
     simp_all

text \<open>
  The requests of the loop of the builder, entry by entry: the loop over \<open>xs\<close> sends one
  block of requests for each entry it reaches, in the order of \<open>xs\<close>. The block of the
  entry \<open>k\<close> is what one call of \<^verbatim>\<open>create_or_update_stack\<close> sends, with the base branch
  the loop started with when \<open>k = 0\<close> and the stack branch of the entry before otherwise,
  and with the draft flag the loop started with when \<open>k = 0\<close> and true otherwise. The loop
  reaches the first entry, and all of them when it succeeds, and then every call has
  succeeded.
\<close>

lemma main_loop_blocks:
  fixes client :: "'srv client"
  shows "\<exists>blocks.
           sent (snd (main_loop client sp known xs b d pulls w)) = sent w @ concat blocks \<and>
           length blocks \<le> length xs \<and>
           (xs \<noteq> [] \<longrightarrow> blocks \<noteq> []) \<and>
           ((\<exists>ps. fst (main_loop client sp known xs b d pulls w) = Inr ps) \<longrightarrow>
              length blocks = length xs) \<and>
           (\<forall>k<length blocks. \<exists>title message wk.
              sent (snd (create_or_update_stack client
                           (if k = 0 then b else sp @ fst (xs ! (k - 1)))
                           (sp @ fst (xs ! k)) (fst (xs ! k)) (fst (snd (xs ! k)))
                           title message (d \<or> k \<noteq> 0) known wk)) = sent wk @ blocks ! k \<and>
              ((\<exists>ps. fst (main_loop client sp known xs b d pulls w) = Inr ps) \<longrightarrow>
                 (\<exists>p. fst (create_or_update_stack client
                              (if k = 0 then b else sp @ fst (xs ! (k - 1)))
                              (sp @ fst (xs ! k)) (fst (xs ! k)) (fst (snd (xs ! k)))
                              title message (d \<or> k \<noteq> 0) known wk) = Inr p)))"
proof (induction xs arbitrary: b d pulls w)
  case Nil
  show ?case
    by (rule exI [of _ "[]"]) simp
next
  case (Cons x xs)
  obtain changeid commit title message where x: "x = (changeid, commit, title, message)"
    by (cases x)
  define m0 where
    "m0 = message @ (if pulls \<noteq> []
                     then [CHR 0x0A, CHR 0x0A] @ ''Depends-On: #'' @ pr_number (last pulls)
                     else [])"
  let ?c = "create_or_update_stack client b (sp @ changeid) changeid commit title m0 d known w"
  obtain r w1 where c: "?c = (r, w1)"
    by (cases ?c)
  obtain reqs where
    "sent (snd ?c) = sent w @ ref_request known changeid (sp @ changeid) commit # reqs"
    using create_or_update_stack_extends
            [of client b "sp @ changeid" changeid commit title m0 d known w]
    by (elim exE)
  then obtain reqs0 where r0: "sent (snd ?c) = sent w @ reqs0"
    by blast
  have w1: "sent w1 = sent w @ reqs0"
    using r0 unfolding c by simp
  show ?case
  proof (cases r)
    case (Inl e)
    have ml: "main_loop client sp known (x # xs) b d pulls w = (Inl e, w1)"
      using c Inl unfolding x m0_def by (simp add: Let_def split del: if_split)
    have per: "\<forall>k<length [reqs0]. \<exists>title message wk.
              sent (snd (create_or_update_stack client
                           (if k = 0 then b else sp @ fst ((x # xs) ! (k - 1)))
                           (sp @ fst ((x # xs) ! k)) (fst ((x # xs) ! k))
                           (fst (snd ((x # xs) ! k)))
                           title message (d \<or> k \<noteq> 0) known wk)) = sent wk @ [reqs0] ! k \<and>
              ((\<exists>ps. fst (main_loop client sp known (x # xs) b d pulls w) = Inr ps) \<longrightarrow>
                 (\<exists>p. fst (create_or_update_stack client
                              (if k = 0 then b else sp @ fst ((x # xs) ! (k - 1)))
                              (sp @ fst ((x # xs) ! k)) (fst ((x # xs) ! k))
                              (fst (snd ((x # xs) ! k)))
                              title message (d \<or> k \<noteq> 0) known wk) = Inr p))"
    proof (intro allI impI)
      fix k :: nat
      assume "k < length [reqs0]"
      then have k: "k = 0" by simp
      show "\<exists>title message wk.
              sent (snd (create_or_update_stack client
                           (if k = 0 then b else sp @ fst ((x # xs) ! (k - 1)))
                           (sp @ fst ((x # xs) ! k)) (fst ((x # xs) ! k))
                           (fst (snd ((x # xs) ! k)))
                           title message (d \<or> k \<noteq> 0) known wk)) = sent wk @ [reqs0] ! k \<and>
              ((\<exists>ps. fst (main_loop client sp known (x # xs) b d pulls w) = Inr ps) \<longrightarrow>
                 (\<exists>p. fst (create_or_update_stack client
                              (if k = 0 then b else sp @ fst ((x # xs) ! (k - 1)))
                              (sp @ fst ((x # xs) ! k)) (fst ((x # xs) ! k))
                              (fst (snd ((x # xs) ! k)))
                              title message (d \<or> k \<noteq> 0) known wk) = Inr p))"
        unfolding k ml
        by (rule exI [of _ title], rule exI [of _ m0], rule exI [of _ w], insert r0)
           (simp add: x)
    qed
    show ?thesis
    proof (rule exI [of _ "[reqs0]"], intro conjI)
      show "sent (snd (main_loop client sp known (x # xs) b d pulls w)) =
              sent w @ concat [reqs0]"
        unfolding ml using w1 by simp
      show "length [reqs0] \<le> length (x # xs)"
        by simp
      show "x # xs \<noteq> [] \<longrightarrow> [reqs0] \<noteq> []"
        by simp
      show "(\<exists>ps. fst (main_loop client sp known (x # xs) b d pulls w) = Inr ps) \<longrightarrow>
              length [reqs0] = length (x # xs)"
        unfolding ml by simp
      show "\<forall>k<length [reqs0]. \<exists>title message wk.
              sent (snd (create_or_update_stack client
                           (if k = 0 then b else sp @ fst ((x # xs) ! (k - 1)))
                           (sp @ fst ((x # xs) ! k)) (fst ((x # xs) ! k))
                           (fst (snd ((x # xs) ! k)))
                           title message (d \<or> k \<noteq> 0) known wk)) = sent wk @ [reqs0] ! k \<and>
              ((\<exists>ps. fst (main_loop client sp known (x # xs) b d pulls w) = Inr ps) \<longrightarrow>
                 (\<exists>p. fst (create_or_update_stack client
                              (if k = 0 then b else sp @ fst ((x # xs) ! (k - 1)))
                              (sp @ fst ((x # xs) ! k)) (fst ((x # xs) ! k))
                              (fst (snd ((x # xs) ! k)))
                              title message (d \<or> k \<noteq> 0) known wk) = Inr p))"
        by (rule per)
    qed
  next
    case (Inr pull)
    have ml: "main_loop client sp known (x # xs) b d pulls w =
                main_loop client sp known xs (sp @ changeid) True (pulls @ [pull]) w1"
      using c Inr unfolding x m0_def by (simp add: Let_def split del: if_split)
    have ok0: "fst ?c = Inr pull"
      unfolding c Inr by simp
    obtain blocks where
      s: "sent (snd (main_loop client sp known xs (sp @ changeid) True (pulls @ [pull]) w1)) =
            sent w1 @ concat blocks"
      and le: "length blocks \<le> length xs"
      and full: "(\<exists>ps. fst (main_loop client sp known xs (sp @ changeid) True (pulls @ [pull])
                            w1) = Inr ps) \<longrightarrow> length blocks = length xs"
      and each: "\<forall>k<length blocks. \<exists>title message wk.
              sent (snd (create_or_update_stack client
                           (if k = 0 then sp @ changeid else sp @ fst (xs ! (k - 1)))
                           (sp @ fst (xs ! k)) (fst (xs ! k)) (fst (snd (xs ! k)))
                           title message (True \<or> k \<noteq> 0) known wk)) = sent wk @ blocks ! k \<and>
              ((\<exists>ps. fst (main_loop client sp known xs (sp @ changeid) True (pulls @ [pull])
                             w1) = Inr ps) \<longrightarrow>
                 (\<exists>p. fst (create_or_update_stack client
                              (if k = 0 then sp @ changeid else sp @ fst (xs ! (k - 1)))
                              (sp @ fst (xs ! k)) (fst (xs ! k)) (fst (snd (xs ! k)))
                              title message (True \<or> k \<noteq> 0) known wk) = Inr p))"
      using Cons.IH [of "sp @ changeid" True "pulls @ [pull]" w1] by (elim exE conjE)
    have per: "\<forall>k<length (reqs0 # blocks). \<exists>title message wk.
              sent (snd (create_or_update_stack client
                           (if k = 0 then b else sp @ fst ((x # xs) ! (k - 1)))
                           (sp @ fst ((x # xs) ! k)) (fst ((x # xs) ! k))
                           (fst (snd ((x # xs) ! k)))
                           title message (d \<or> k \<noteq> 0) known wk)) =
                sent wk @ (reqs0 # blocks) ! k \<and>
              ((\<exists>ps. fst (main_loop client sp known (x # xs) b d pulls w) = Inr ps) \<longrightarrow>
                 (\<exists>p. fst (create_or_update_stack client
                              (if k = 0 then b else sp @ fst ((x # xs) ! (k - 1)))
                              (sp @ fst ((x # xs) ! k)) (fst ((x # xs) ! k))
                              (fst (snd ((x # xs) ! k)))
                              title message (d \<or> k \<noteq> 0) known wk) = Inr p))"
    proof (intro allI impI)
      fix k :: nat
      assume kl: "k < length (reqs0 # blocks)"
      show "\<exists>title message wk.
              sent (snd (create_or_update_stack client
                           (if k = 0 then b else sp @ fst ((x # xs) ! (k - 1)))
                           (sp @ fst ((x # xs) ! k)) (fst ((x # xs) ! k))
                           (fst (snd ((x # xs) ! k)))
                           title message (d \<or> k \<noteq> 0) known wk)) =
                sent wk @ (reqs0 # blocks) ! k \<and>
              ((\<exists>ps. fst (main_loop client sp known (x # xs) b d pulls w) = Inr ps) \<longrightarrow>
                 (\<exists>p. fst (create_or_update_stack client
                              (if k = 0 then b else sp @ fst ((x # xs) ! (k - 1)))
                              (sp @ fst ((x # xs) ! k)) (fst ((x # xs) ! k))
                              (fst (snd ((x # xs) ! k)))
                              title message (d \<or> k \<noteq> 0) known wk) = Inr p))"
      proof (cases k)
        case 0
        show ?thesis
          unfolding 0
          by (rule exI [of _ title], rule exI [of _ m0], rule exI [of _ w], insert r0 ok0)
             (simp add: x)
      next
        case (Suc j)
        have j: "j < length blocks"
          using kl Suc by simp
        have base: "(if j = 0 then sp @ changeid else sp @ fst (xs ! (j - 1))) =
                    sp @ fst ((x # xs) ! j)"
          by (cases j) (simp_all add: x)
        from each j obtain t m wk where
          a: "sent (snd (create_or_update_stack client
                           (if j = 0 then sp @ changeid else sp @ fst (xs ! (j - 1)))
                           (sp @ fst (xs ! j)) (fst (xs ! j)) (fst (snd (xs ! j)))
                           t m (True \<or> j \<noteq> 0) known wk)) = sent wk @ blocks ! j"
          and b: "(\<exists>ps. fst (main_loop client sp known xs (sp @ changeid) True (pulls @ [pull])
                             w1) = Inr ps) \<longrightarrow>
                 (\<exists>p. fst (create_or_update_stack client
                              (if j = 0 then sp @ changeid else sp @ fst (xs ! (j - 1)))
                              (sp @ fst (xs ! j)) (fst (xs ! j)) (fst (snd (xs ! j)))
                              t m (True \<or> j \<noteq> 0) known wk) = Inr p)"
          by blast
        show ?thesis
          unfolding Suc ml
          by (rule exI [of _ t], rule exI [of _ m], rule exI [of _ wk],
              insert a b [unfolded base] a [unfolded base])
             simp
      qed
    qed
    show ?thesis
    proof (rule exI [of _ "reqs0 # blocks"], intro conjI)
      show "sent (snd (main_loop client sp known (x # xs) b d pulls w)) =
              sent w @ concat (reqs0 # blocks)"
        unfolding ml s w1 by simp
      show "length (reqs0 # blocks) \<le> length (x # xs)"
        using le by simp
      show "x # xs \<noteq> [] \<longrightarrow> reqs0 # blocks \<noteq> []"
        by simp
      show "(\<exists>ps. fst (main_loop client sp known (x # xs) b d pulls w) = Inr ps) \<longrightarrow>
              length (reqs0 # blocks) = length (x # xs)"
        unfolding ml using full by simp
      show "\<forall>k<length (reqs0 # blocks). \<exists>title message wk.
              sent (snd (create_or_update_stack client
                           (if k = 0 then b else sp @ fst ((x # xs) ! (k - 1)))
                           (sp @ fst ((x # xs) ! k)) (fst ((x # xs) ! k))
                           (fst (snd ((x # xs) ! k)))
                           title message (d \<or> k \<noteq> 0) known wk)) =
                sent wk @ (reqs0 # blocks) ! k \<and>
              ((\<exists>ps. fst (main_loop client sp known (x # xs) b d pulls w) = Inr ps) \<longrightarrow>
                 (\<exists>p. fst (create_or_update_stack client
                              (if k = 0 then b else sp @ fst ((x # xs) ! (k - 1)))
                              (sp @ fst ((x # xs) ! k)) (fst ((x # xs) ! k))
                              (fst (snd ((x # xs) ! k)))
                              title message (d \<or> k \<noteq> 0) known wk) = Inr p))"
        by (rule per)
    qed
  qed
qed

text \<open>
  The requests of the comment synchronizer carry no base, no head and no draft flag, and
  none of them is the transition to ready for review.
\<close>

lemma sync_comment_requests:
  "\<exists>reqs. sent (sync_comment client body pull comments w) = sent w @ reqs \<and>
          (\<forall>req\<in>set reqs.
             map_of (req_json req) ''base'' = None \<and>
             map_of (req_json req) ''head'' = None \<and>
             map_of (req_json req) ''draft'' = None \<and>
             \<not> (req_method req = POST \<and> req_url req = ''/graghql''))"
proof (cases "find (\<lambda>c. startswith (comment_body c) first_line) comments")
  case None
  show ?thesis
    unfolding sync_comment_sent None by simp
next
  case (Some c)
  show ?thesis
    unfolding sync_comment_sent Some by simp
qed

lemma sync_pulls_requests:
  fixes client :: "'srv client"
  shows "\<exists>reqs. sent (snd (sync_pulls client body ps w)) = sent w @ reqs \<and>
                (\<forall>req\<in>set reqs.
                   map_of (req_json req) ''base'' = None \<and>
                   map_of (req_json req) ''head'' = None \<and>
                   map_of (req_json req) ''draft'' = None \<and>
                   \<not> (req_method req = POST \<and> req_url req = ''/graghql''))"
proof (induction ps arbitrary: w)
  case Nil
  show ?case by simp
next
  case (Cons pull ps)
  let ?P = "\<lambda>req. map_of (req_json req) ''base'' = None \<and>
                   map_of (req_json req) ''head'' = None \<and>
                   map_of (req_json req) ''draft'' = None \<and>
                   \<not> (req_method req = POST \<and> req_url req = ''/graghql'')"
  define req where "req = Request GET (''issues/'' @ pr_number pull @ ''/comments'') [] [] []"
  have Preq: "?P req"
    by (simp add: req_def)
  obtain r w1 where g: "send client req w = (r, w1)"
    by (cases "send client req w")
  have w1: "sent w1 = sent w @ [req]"
    using g by (rule send_sent)
  have step: "sync_pulls client body (pull # ps) w =
                (case check_for_status r of
                   Some e \<Rightarrow> (Inl e, w1)
                 | None \<Rightarrow>
                     sync_pulls client body ps
                       (sync_comment client body pull (json_comments r) w1))"
    unfolding sync_pulls.simps client_get_def req_def [symmetric] g by (simp only: prod.case)
  show ?case
  proof (cases "check_for_status r")
    case (Some e)
    have "sent (snd (sync_pulls client body (pull # ps) w)) = sent w @ [req]"
      unfolding step Some using w1 by simp
    moreover have "\<forall>q\<in>set [req]. ?P q"
      using Preq by simp
    ultimately show ?thesis
      by blast
  next
    case None
    let ?w2 = "sync_comment client body pull (json_comments r) w1"
    obtain cs where c1: "sent ?w2 = sent w1 @ cs" and c2: "\<forall>q\<in>set cs. ?P q"
      using sync_comment_requests [of client body pull "json_comments r" w1]
      by (elim exE conjE)
    obtain reqs where r1: "sent (snd (sync_pulls client body ps ?w2)) = sent ?w2 @ reqs"
      and r2: "\<forall>q\<in>set reqs. ?P q"
      using Cons.IH [of ?w2] by (elim exE conjE)
    have "sent (snd (sync_pulls client body (pull # ps) w)) = sent w @ (req # cs @ reqs)"
      unfolding step None using r1 c1 w1 by simp
    moreover have "\<forall>q\<in>set (req # cs @ reqs). ?P q"
      using Preq c2 r2 by auto
    ultimately show ?thesis
      by blast
  qed
qed

text \<open>
  The requests of a run whose plan is \<open>changes\<close>: the blocks of the builder, for
  the changes from the oldest to the newest, with the upstream base branch and the draft
  flag false for the first, and then the requests of the comment synchronizer.
\<close>

lemma main_run_blocks:
  fixes client :: "'srv client"
  assumes plan: "fst (get_local_changes run commits known
                        (console_log ''Stacked pull request plan:'' w)) = Inr changes"
  shows "\<exists>blocks rest.
           sent (snd (main_run run client dry_run sp base_branch commits known w)) =
             sent w @ concat blocks @ rest \<and>
           length blocks \<le> length changes \<and>
           (\<not> dry_run \<and> changes \<noteq> [] \<longrightarrow> blocks \<noteq> []) \<and>
           ((\<exists>ds. fst (main_run run client dry_run sp base_branch commits known w) = Inr ds) \<longrightarrow>
              length blocks = length changes) \<and>
           (\<forall>k<length blocks. \<exists>title message wk.
              sent (snd (create_or_update_stack client
                           (if k = 0 then base_branch else sp @ fst (rev changes ! (k - 1)))
                           (sp @ fst (rev changes ! k)) (fst (rev changes ! k))
                           (fst (snd (rev changes ! k)))
                           title message (k \<noteq> 0) known wk)) = sent wk @ blocks ! k \<and>
              ((\<exists>ds. fst (main_run run client dry_run sp base_branch commits known w) =
                       Inr ds) \<longrightarrow>
                 (\<exists>p. fst (create_or_update_stack client
                              (if k = 0 then base_branch else sp @ fst (rev changes ! (k - 1)))
                              (sp @ fst (rev changes ! k)) (fst (rev changes ! k))
                              (fst (snd (rev changes ! k)))
                              title message (k \<noteq> 0) known wk) = Inr p))) \<and>
           (\<forall>req\<in>set rest.
              map_of (req_json req) ''base'' = None \<and>
              map_of (req_json req) ''head'' = None \<and>
              map_of (req_json req) ''draft'' = None \<and>
              \<not> (req_method req = POST \<and> req_url req = ''/graghql''))"
proof -
  let ?run = "main_run run client dry_run sp base_branch commits known w"
  let ?call = "\<lambda>k title message wk.
                 create_or_update_stack client
                   (if k = 0 then base_branch else sp @ fst (rev changes ! (k - 1)))
                   (sp @ fst (rev changes ! k)) (fst (rev changes ! k))
                   (fst (snd (rev changes ! k))) title message (k \<noteq> 0) known wk"
  let ?P = "\<lambda>req. map_of (req_json req) ''base'' = None \<and>
                   map_of (req_json req) ''head'' = None \<and>
                   map_of (req_json req) ''draft'' = None \<and>
                   \<not> (req_method req = POST \<and> req_url req = ''/graghql'')"
  obtain w1 where pl: "get_local_changes run commits known
                         (console_log ''Stacked pull request plan:'' w) = (Inr changes, w1)"
    using plan
    by (cases "get_local_changes run commits known
                 (console_log ''Stacked pull request plan:'' w)") simp
  have w1: "sent w1 = sent w"
    using get_local_changes_loop_sent
            [of run known commits "[]" "console_log ''Stacked pull request plan:'' w"]
    unfolding get_local_changes_def [symmetric] pl by (simp add: console_log_sent)
  show ?thesis
  proof (cases dry_run)
    case True
    have run: "?run = (Inl (SystemExit 0),
                       console_log ''[orange]Finished (dry-run mode) :tada:[/]'' w1)"
      using True by (simp add: main_run_def pl Let_def)
    show ?thesis
      unfolding run
      by (rule exI [of _ "[]"], rule exI [of _ "[]"]) (simp add: console_log_sent w1 True)
  next
    case False
    define w2 where "w2 = console_log ''New stacked pull request:'' w1"
    have w2: "sent w2 = sent w"
      unfolding w2_def by (simp add: console_log_sent w1)
    let ?loop = "main_loop client sp known (rev changes) base_branch False [] w2"
    obtain blocks where
      s: "sent (snd ?loop) = sent w2 @ concat blocks"
      and le: "length blocks \<le> length (rev changes)"
      and ne: "rev changes \<noteq> [] \<longrightarrow> blocks \<noteq> []"
      and full: "(\<exists>ps. fst ?loop = Inr ps) \<longrightarrow> length blocks = length (rev changes)"
      and each: "\<forall>k<length blocks. \<exists>title message wk.
              sent (snd (create_or_update_stack client
                           (if k = 0 then base_branch else sp @ fst (rev changes ! (k - 1)))
                           (sp @ fst (rev changes ! k)) (fst (rev changes ! k))
                           (fst (snd (rev changes ! k)))
                           title message (False \<or> k \<noteq> 0) known wk)) = sent wk @ blocks ! k \<and>
              ((\<exists>ps. fst ?loop = Inr ps) \<longrightarrow>
                 (\<exists>p. fst (create_or_update_stack client
                              (if k = 0 then base_branch else sp @ fst (rev changes ! (k - 1)))
                              (sp @ fst (rev changes ! k)) (fst (rev changes ! k))
                              (fst (snd (rev changes ! k)))
                              title message (False \<or> k \<noteq> 0) known wk) = Inr p))"
      using main_loop_blocks [of client sp known "rev changes" base_branch False "[]" w2]
      by (elim exE conjE)
    have each': "\<forall>k<length blocks. \<exists>title message wk.
                   sent (snd (?call k title message wk)) = sent wk @ blocks ! k \<and>
                   ((\<exists>ps. fst ?loop = Inr ps) \<longrightarrow> (\<exists>p. fst (?call k title message wk) = Inr p))"
      using each by simp
    obtain r w3 where ml: "?loop = (r, w3)"
      by (cases ?loop)
    have w3: "sent w3 = sent w @ concat blocks"
      using s w2 unfolding ml by simp
    have run: "?run =
                 (case r of
                    Inl e \<Rightarrow> (Inl e, w3)
                  | Inr pulls \<Rightarrow>
                      (case create_or_update_comments client pulls w3 of
                         (Inl e, w4) \<Rightarrow> (Inl e, w4)
                       | (Inr u, w4) \<Rightarrow>
                           (Inr (get_changeids_to_delete changes known),
                            console_log ''[green]Comments updated'' w4)))"
      using False ml unfolding w2_def
      by (cases r) (simp_all add: main_run_def pl Let_def)
    show ?thesis
    proof (cases r)
      case (Inl e)
      have run1: "?run = (Inl e, w3)"
        unfolding run Inl by simp
      have nok: "\<not> (\<exists>ds. fst ?run = Inr ds)"
        unfolding run1 by simp
      have a: "sent (snd ?run) = sent w @ concat blocks @ []"
        unfolding run1 using w3 by simp
      have b: "\<forall>k<length blocks. \<exists>title message wk.
                 sent (snd (?call k title message wk)) = sent wk @ blocks ! k \<and>
                 ((\<exists>ds. fst ?run = Inr ds) \<longrightarrow> (\<exists>p. fst (?call k title message wk) = Inr p))"
        using each' nok by blast
      show ?thesis
        apply (rule exI [of _ blocks], rule exI [of _ "[]"])
        using a b le ne nok apply simp
        done
    next
      case (Inr pulls)
      have lok: "\<exists>ps. fst ?loop = Inr ps"
        unfolding ml Inr by simp
      obtain r4 w4 where cc: "create_or_update_comments client pulls w3 = (r4, w4)"
        by (cases "create_or_update_comments client pulls w3")
      obtain rest where r1: "sent w4 = sent w3 @ rest" and r2: "\<forall>q\<in>set rest. ?P q"
        using sync_pulls_requests [of client "stack_body pulls" pulls w3]
        unfolding create_or_update_comments_def [symmetric] cc
        by (elim exE conjE) simp
      have a: "sent (snd ?run) = sent w @ concat blocks @ rest"
        unfolding run Inr using r1 w3 cc by (cases r4) (simp_all add: console_log_sent)
      have b: "\<forall>k<length blocks. \<exists>title message wk.
                 sent (snd (?call k title message wk)) = sent wk @ blocks ! k \<and>
                 ((\<exists>ds. fst ?run = Inr ds) \<longrightarrow> (\<exists>p. fst (?call k title message wk) = Inr p))"
        using each' lok by blast
      have c: "length blocks = length changes"
        using full lok by simp
      show ?thesis
        apply (rule exI [of _ blocks], rule exI [of _ rest])
        using a b c r2 ne apply simp
        done
    qed
  qed
qed

subsection \<open>The chain of base branches\<close>

text \<open>
  C3. Take a run whose plan is \<open>changes\<close> (newest first, as \<^verbatim>\<open>get_local_changes\<close>
  returns them); the builder processes them reversed, oldest first. The requests of the
  run are, after those sent before it, one block for each entry the builder reaches, in
  that order, and then the requests of the comment synchronizer. The builder reaches the
  first entry of a stack that is not empty (unless the run is a dry run) and, when the
  run succeeds, every entry. The block of the entry \<open>k\<close> is what a call of
  \<^verbatim>\<open>create_or_update_stack\<close> sends that is passed, as base branch, the upstream base
  branch when \<open>k = 0\<close> and otherwise the stack branch of the entry before (the prefix
  followed by its identifier), and, as head branch, the stack branch of the entry itself.
  The block starts with the reference request of the entry; no request of the block
  carries another base or another head; and when the run succeeds and the entry is
  created or updated, a request of the block carries this base and this head. The
  requests of the comment synchronizer carry no base and no head.
\<close>

theorem chain_integrity:
  fixes client :: "'srv client"
  assumes "fst (get_local_changes run commits known
                  (console_log ''Stacked pull request plan:'' w)) = Inr changes"
  shows "\<exists>blocks rest.
           sent (snd (main_run run client dry_run stack_prefix base_branch commits known w)) =
             sent w @ concat blocks @ rest \<and>
           length blocks \<le> length changes \<and>
           (\<not> dry_run \<and> changes \<noteq> [] \<longrightarrow> blocks \<noteq> []) \<and>
           ((\<exists>ds. fst (main_run run client dry_run stack_prefix base_branch commits known w) =
                    Inr ds) \<longrightarrow>
              length blocks = length changes) \<and>
           (\<forall>k<length blocks.
              (\<exists>title message draft wk.
                 sent (snd (create_or_update_stack client
                              (if k = 0 then base_branch
                               else stack_prefix @ fst (rev changes ! (k - 1)))
                              (stack_prefix @ fst (rev changes ! k)) (fst (rev changes ! k))
                              (fst (snd (rev changes ! k)))
                              title message draft known wk)) = sent wk @ blocks ! k) \<and>
              (\<exists>reqs. blocks ! k =
                        ref_request known (fst (rev changes ! k))
                          (stack_prefix @ fst (rev changes ! k))
                          (fst (snd (rev changes ! k))) # reqs) \<and>
              (\<forall>req\<in>set (blocks ! k).
                 map_of (req_json req) ''base'' \<in>
                   {None, Some (JStr (if k = 0 then base_branch
                                      else stack_prefix @ fst (rev changes ! (k - 1))))} \<and>
                 map_of (req_json req) ''head'' \<in>
                   {None, Some (JStr (stack_prefix @ fst (rev changes ! k)))}) \<and>
              ((\<exists>ds. fst (main_run run client dry_run stack_prefix base_branch commits known
                             w) = Inr ds) \<longrightarrow>
               \<not> (\<exists>pull. dict_get known (fst (rev changes ! k)) = Some pull \<and>
                          sha (pr_head pull) = fst (snd (rev changes ! k))) \<longrightarrow>
               (\<exists>req\<in>set (blocks ! k).
                  map_of (req_json req) ''base'' =
                    Some (JStr (if k = 0 then base_branch
                                else stack_prefix @ fst (rev changes ! (k - 1)))) \<and>
                  map_of (req_json req) ''head'' =
                    Some (JStr (stack_prefix @ fst (rev changes ! k)))))) \<and>
           (\<forall>req\<in>set rest.
              map_of (req_json req) ''base'' = None \<and> map_of (req_json req) ''head'' = None)"
proof -
  let ?run = "main_run run client dry_run stack_prefix base_branch commits known w"
  let ?b = "\<lambda>k. if k = 0 then base_branch else stack_prefix @ fst (rev changes ! (k - 1))"
  let ?d = "\<lambda>k. stack_prefix @ fst (rev changes ! k)"
  let ?i = "\<lambda>k. fst (rev changes ! k)"
  let ?s = "\<lambda>k. fst (snd (rev changes ! k))"
  obtain blocks rest where
    a: "sent (snd ?run) = sent w @ concat blocks @ rest"
    and le: "length blocks \<le> length changes"
    and ne: "\<not> dry_run \<and> changes \<noteq> [] \<longrightarrow> blocks \<noteq> []"
    and full: "(\<exists>ds. fst ?run = Inr ds) \<longrightarrow> length blocks = length changes"
    and each: "\<forall>k<length blocks. \<exists>title message wk.
                 sent (snd (create_or_update_stack client (?b k) (?d k) (?i k) (?s k)
                              title message (k \<noteq> 0) known wk)) = sent wk @ blocks ! k \<and>
                 ((\<exists>ds. fst ?run = Inr ds) \<longrightarrow>
                    (\<exists>p. fst (create_or_update_stack client (?b k) (?d k) (?i k) (?s k)
                                 title message (k \<noteq> 0) known wk) = Inr p))"
    and rst: "\<forall>req\<in>set rest.
                map_of (req_json req) ''base'' = None \<and>
                map_of (req_json req) ''head'' = None \<and>
                map_of (req_json req) ''draft'' = None \<and>
                \<not> (req_method req = POST \<and> req_url req = ''/graghql'')"
    using main_run_blocks [OF assms, of client dry_run stack_prefix base_branch]
    by (elim exE conjE)
  have per: "\<forall>k<length blocks.
              (\<exists>title message draft wk.
                 sent (snd (create_or_update_stack client (?b k) (?d k) (?i k) (?s k)
                              title message draft known wk)) = sent wk @ blocks ! k) \<and>
              (\<exists>reqs. blocks ! k = ref_request known (?i k) (?d k) (?s k) # reqs) \<and>
              (\<forall>req\<in>set (blocks ! k).
                 map_of (req_json req) ''base'' \<in> {None, Some (JStr (?b k))} \<and>
                 map_of (req_json req) ''head'' \<in> {None, Some (JStr (?d k))}) \<and>
              ((\<exists>ds. fst ?run = Inr ds) \<longrightarrow>
               \<not> (\<exists>pull. dict_get known (?i k) = Some pull \<and> sha (pr_head pull) = ?s k) \<longrightarrow>
               (\<exists>req\<in>set (blocks ! k).
                  map_of (req_json req) ''base'' = Some (JStr (?b k)) \<and>
                  map_of (req_json req) ''head'' = Some (JStr (?d k))))"
  proof (intro allI impI)
    fix k
    assume "k < length blocks"
    with each obtain title message wk where
      c: "sent (snd (create_or_update_stack client (?b k) (?d k) (?i k) (?s k)
                       title message (k \<noteq> 0) known wk)) = sent wk @ blocks ! k"
      and ok: "(\<exists>ds. fst ?run = Inr ds) \<longrightarrow>
                 (\<exists>p. fst (create_or_update_stack client (?b k) (?d k) (?i k) (?s k)
                              title message (k \<noteq> 0) known wk) = Inr p)"
      by blast
    obtain reqs where
      r: "sent (snd (create_or_update_stack client (?b k) (?d k) (?i k) (?s k)
                       title message (k \<noteq> 0) known wk)) = sent wk @ reqs"
      and p: "\<forall>req\<in>set reqs.
                map_of (req_json req) ''base'' \<in> {None, Some (JStr (?b k))} \<and>
                map_of (req_json req) ''head'' \<in> {None, Some (JStr (?d k))}"
      and e: "\<forall>p. fst (create_or_update_stack client (?b k) (?d k) (?i k) (?s k)
                          title message (k \<noteq> 0) known wk) = Inr p \<longrightarrow>
                \<not> (\<exists>pull. dict_get known (?i k) = Some pull \<and> sha (pr_head pull) = ?s k) \<longrightarrow>
                (\<exists>req\<in>set reqs.
                   map_of (req_json req) ''base'' = Some (JStr (?b k)) \<and>
                   map_of (req_json req) ''head'' = Some (JStr (?d k)))"
      using create_or_update_stack_base_head
              [of client "?b k" "?d k" "?i k" "?s k" title message "k \<noteq> 0" known wk]
      by (elim exE conjE)
    have eq: "reqs = blocks ! k"
      using r c by simp
    obtain tl where
      "sent (snd (create_or_update_stack client (?b k) (?d k) (?i k) (?s k)
                    title message (k \<noteq> 0) known wk)) =
         sent wk @ ref_request known (?i k) (?d k) (?s k) # tl"
      using create_or_update_stack_extends
              [of client "?b k" "?d k" "?i k" "?s k" title message "k \<noteq> 0" known wk]
      by (elim exE)
    then have "blocks ! k = ref_request known (?i k) (?d k) (?s k) # tl"
      unfolding c by (simp only: same_append_eq)
    then have first: "\<exists>reqs. blocks ! k = ref_request known (?i k) (?d k) (?s k) # reqs"
      by (rule exI)
    have call: "\<exists>title message draft wk.
                 sent (snd (create_or_update_stack client (?b k) (?d k) (?i k) (?s k)
                              title message draft known wk)) = sent wk @ blocks ! k"
      using c by blast
    have sent_ok: "(\<exists>ds. fst ?run = Inr ds) \<longrightarrow>
               \<not> (\<exists>pull. dict_get known (?i k) = Some pull \<and> sha (pr_head pull) = ?s k) \<longrightarrow>
               (\<exists>req\<in>set (blocks ! k).
                  map_of (req_json req) ''base'' = Some (JStr (?b k)) \<and>
                  map_of (req_json req) ''head'' = Some (JStr (?d k)))"
      using ok e unfolding eq by blast
    show "(\<exists>title message draft wk.
                 sent (snd (create_or_update_stack client (?b k) (?d k) (?i k) (?s k)
                              title message draft known wk)) = sent wk @ blocks ! k) \<and>
              (\<exists>reqs. blocks ! k = ref_request known (?i k) (?d k) (?s k) # reqs) \<and>
              (\<forall>req\<in>set (blocks ! k).
                 map_of (req_json req) ''base'' \<in> {None, Some (JStr (?b k))} \<and>
                 map_of (req_json req) ''head'' \<in> {None, Some (JStr (?d k))}) \<and>
              ((\<exists>ds. fst ?run = Inr ds) \<longrightarrow>
               \<not> (\<exists>pull. dict_get known (?i k) = Some pull \<and> sha (pr_head pull) = ?s k) \<longrightarrow>
               (\<exists>req\<in>set (blocks ! k).
                  map_of (req_json req) ''base'' = Some (JStr (?b k)) \<and>
                  map_of (req_json req) ''head'' = Some (JStr (?d k))))"
      using call first p [unfolded eq] sent_ok by (intro conjI)
  qed
  have rst': "\<forall>req\<in>set rest.
                map_of (req_json req) ''base'' = None \<and> map_of (req_json req) ''head'' = None"
    using rst by blast
  show ?thesis
    using a le ne full per rst'
    by (intro exI [of _ blocks] exI [of _ rest] conjI)
qed

theorem chain_integrity_witness:
  "fst (get_local_changes stack_shell [''c2'', ''c1''] Mapping.empty
          (console_log ''Stacked pull request plan:'' world0)) =
     Inr [(''I2222222222222222222222222222222222222222'', ''c2'', ''subject'',
           ''Change-Id: I2222222222222222222222222222222222222222''),
          (''I1111111111111111111111111111111111111111'', ''c1'', ''subject'',
           ''Change-Id: I1111111111111111111111111111111111111111'')] \<and>
   map (\<lambda>r. (req_url r, map_of (req_json r) ''base'', map_of (req_json r) ''head''))
     (sent (snd (main_run stack_shell comment_service False ''stack/'' ''main''
                   [''c2'', ''c1''] Mapping.empty world0))) =
     [(''git/refs'', None, None),
      (''pulls'', Some (JStr ''main''),
       Some (JStr ''stack/I1111111111111111111111111111111111111111'')),
      (''git/refs'', None, None),
      (''pulls'', Some (JStr ''stack/I1111111111111111111111111111111111111111''),
       Some (JStr ''stack/I2222222222222222222222222222222222222222'')),
      (''issues/7/comments'', None, None),
      (''issues/7/comments'', None, None),
      (''issues/7/comments'', None, None)]"
proof -
  have f: "findall ''Change-Id: I1111111111111111111111111111111111111111'' =
             [''I1111111111111111111111111111111111111111'']"
          "findall ''Change-Id: I2222222222222222222222222222222222222222'' =
             [''I2222222222222222222222222222222222222222'']"
    by code_simp+
  have st: "strip ''Change-Id: I1111111111111111111111111111111111111111'' =
              ''Change-Id: I1111111111111111111111111111111111111111''"
           "strip ''Change-Id: I2222222222222222222222222222222222222222'' =
              ''Change-Id: I2222222222222222222222222222222222222222''"
           "strip ''subject'' = ''subject''"
    by code_simp+
  have h: "fst (get_local_changes stack_shell [''c2'', ''c1''] Mapping.empty
                  (console_log ''Stacked pull request plan:'' world0)) =
     Inr [(''I2222222222222222222222222222222222222222'', ''c2'', ''subject'',
           ''Change-Id: I2222222222222222222222222222222222222222''),
          (''I1111111111111111111111111111111111111111'', ''c1'', ''subject'',
           ''Change-Id: I1111111111111111111111111111111111111111'')]"
    by (simp add: run_defs stack_shell_def f st del: findall.simps)
  have r: "map (\<lambda>r. (req_url r, map_of (req_json r) ''base'', map_of (req_json r) ''head''))
     (sent (snd (main_run stack_shell comment_service False ''stack/'' ''main''
                   [''c2'', ''c1''] Mapping.empty world0))) =
     [(''git/refs'', None, None),
      (''pulls'', Some (JStr ''main''),
       Some (JStr ''stack/I1111111111111111111111111111111111111111'')),
      (''git/refs'', None, None),
      (''pulls'', Some (JStr ''stack/I1111111111111111111111111111111111111111''),
       Some (JStr ''stack/I2222222222222222222222222222222222222222'')),
      (''issues/7/comments'', None, None),
      (''issues/7/comments'', None, None),
      (''issues/7/comments'', None, None)]"
    by (simp add: run_defs stack_shell_def f st del: findall.simps)
  from chain_integrity [OF h, of comment_service False "''stack/''" "''main''"] h r
  show ?thesis
    by (intro conjI)
qed

subsection \<open>The draft flag\<close>

text \<open>
  C4. With the requests of a run in blocks as above, the block of the entry \<open>k\<close> is what
  a call of \<^verbatim>\<open>create_or_update_stack\<close> sends that is passed the draft flag false when
  \<open>k = 0\<close> and true otherwise: the flag is false for the oldest entry only and never goes
  back to false. No request of the block carries another draft flag, and the block
  contains the transition to ready for review (the \<^verbatim>\<open>POST\<close> to \<^verbatim>\<open>/graghql\<close>) only when
  \<open>k = 0\<close> and the entry is an update. When the run succeeds, the block of an entry that
  is created carries the flag, and the block of the first entry, when it is an update,
  contains the transition. The requests of the comment synchronizer carry no draft flag
  and none is the transition.
\<close>

theorem draft_invariant:
  fixes client :: "'srv client"
  assumes "fst (get_local_changes run commits known
                  (console_log ''Stacked pull request plan:'' w)) = Inr changes"
  shows "\<exists>blocks rest.
           sent (snd (main_run run client dry_run stack_prefix base_branch commits known w)) =
             sent w @ concat blocks @ rest \<and>
           length blocks \<le> length changes \<and>
           (\<not> dry_run \<and> changes \<noteq> [] \<longrightarrow> blocks \<noteq> []) \<and>
           ((\<exists>ds. fst (main_run run client dry_run stack_prefix base_branch commits known w) =
                    Inr ds) \<longrightarrow>
              length blocks = length changes) \<and>
           (\<forall>k<length blocks.
              (\<exists>base title message wk.
                 sent (snd (create_or_update_stack client base
                              (stack_prefix @ fst (rev changes ! k)) (fst (rev changes ! k))
                              (fst (snd (rev changes ! k)))
                              title message (k \<noteq> 0) known wk)) = sent wk @ blocks ! k) \<and>
              (\<forall>req\<in>set (blocks ! k).
                 map_of (req_json req) ''draft'' \<in> {None, Some (JBool (k \<noteq> 0))} \<and>
                 (req_method req = POST \<and> req_url req = ''/graghql'' \<longrightarrow>
                    k = 0 \<and>
                    (\<exists>pull. dict_get known (fst (rev changes ! k)) = Some pull \<and>
                            sha (pr_head pull) \<noteq> fst (snd (rev changes ! k))))) \<and>
              ((\<exists>ds. fst (main_run run client dry_run stack_prefix base_branch commits known
                             w) = Inr ds) \<longrightarrow>
               (dict_get known (fst (rev changes ! k)) = None \<longrightarrow>
                  (\<exists>req\<in>set (blocks ! k).
                     map_of (req_json req) ''draft'' = Some (JBool (k \<noteq> 0)))) \<and>
               (k = 0 \<and>
                (\<exists>pull. dict_get known (fst (rev changes ! k)) = Some pull \<and>
                        sha (pr_head pull) \<noteq> fst (snd (rev changes ! k))) \<longrightarrow>
                  (\<exists>req\<in>set (blocks ! k).
                     req_method req = POST \<and> req_url req = ''/graghql'')))) \<and>
           (\<forall>req\<in>set rest.
              map_of (req_json req) ''draft'' = None \<and>
              \<not> (req_method req = POST \<and> req_url req = ''/graghql''))"
proof -
  let ?run = "main_run run client dry_run stack_prefix base_branch commits known w"
  let ?b = "\<lambda>k. if k = 0 then base_branch else stack_prefix @ fst (rev changes ! (k - 1))"
  let ?d = "\<lambda>k. stack_prefix @ fst (rev changes ! k)"
  let ?i = "\<lambda>k. fst (rev changes ! k)"
  let ?s = "\<lambda>k. fst (snd (rev changes ! k))"
  obtain blocks rest where
    a: "sent (snd ?run) = sent w @ concat blocks @ rest"
    and le: "length blocks \<le> length changes"
    and ne: "\<not> dry_run \<and> changes \<noteq> [] \<longrightarrow> blocks \<noteq> []"
    and full: "(\<exists>ds. fst ?run = Inr ds) \<longrightarrow> length blocks = length changes"
    and each: "\<forall>k<length blocks. \<exists>title message wk.
                 sent (snd (create_or_update_stack client (?b k) (?d k) (?i k) (?s k)
                              title message (k \<noteq> 0) known wk)) = sent wk @ blocks ! k \<and>
                 ((\<exists>ds. fst ?run = Inr ds) \<longrightarrow>
                    (\<exists>p. fst (create_or_update_stack client (?b k) (?d k) (?i k) (?s k)
                                 title message (k \<noteq> 0) known wk) = Inr p))"
    and rst: "\<forall>req\<in>set rest.
                map_of (req_json req) ''base'' = None \<and>
                map_of (req_json req) ''head'' = None \<and>
                map_of (req_json req) ''draft'' = None \<and>
                \<not> (req_method req = POST \<and> req_url req = ''/graghql'')"
    using main_run_blocks [OF assms, of client dry_run stack_prefix base_branch]
    by (elim exE conjE)
  have per: "\<forall>k<length blocks.
              (\<exists>base title message wk.
                 sent (snd (create_or_update_stack client base (?d k) (?i k) (?s k)
                              title message (k \<noteq> 0) known wk)) = sent wk @ blocks ! k) \<and>
              (\<forall>req\<in>set (blocks ! k).
                 map_of (req_json req) ''draft'' \<in> {None, Some (JBool (k \<noteq> 0))} \<and>
                 (req_method req = POST \<and> req_url req = ''/graghql'' \<longrightarrow>
                    k = 0 \<and>
                    (\<exists>pull. dict_get known (?i k) = Some pull \<and> sha (pr_head pull) \<noteq> ?s k))) \<and>
              ((\<exists>ds. fst ?run = Inr ds) \<longrightarrow>
               (dict_get known (?i k) = None \<longrightarrow>
                  (\<exists>req\<in>set (blocks ! k).
                     map_of (req_json req) ''draft'' = Some (JBool (k \<noteq> 0)))) \<and>
               (k = 0 \<and>
                (\<exists>pull. dict_get known (?i k) = Some pull \<and> sha (pr_head pull) \<noteq> ?s k) \<longrightarrow>
                  (\<exists>req\<in>set (blocks ! k).
                     req_method req = POST \<and> req_url req = ''/graghql'')))"
  proof (intro allI impI)
    fix k
    assume "k < length blocks"
    with each obtain title message wk where
      c: "sent (snd (create_or_update_stack client (?b k) (?d k) (?i k) (?s k)
                       title message (k \<noteq> 0) known wk)) = sent wk @ blocks ! k"
      and ok: "(\<exists>ds. fst ?run = Inr ds) \<longrightarrow>
                 (\<exists>p. fst (create_or_update_stack client (?b k) (?d k) (?i k) (?s k)
                              title message (k \<noteq> 0) known wk) = Inr p)"
      by blast
    obtain reqs where
      r: "sent (snd (create_or_update_stack client (?b k) (?d k) (?i k) (?s k)
                       title message (k \<noteq> 0) known wk)) = sent wk @ reqs"
      and p: "\<forall>req\<in>set reqs.
                map_of (req_json req) ''draft'' \<in> {None, Some (JBool (k \<noteq> 0))} \<and>
                (req_url req = ''/graghql'' \<longrightarrow>
                   \<not> k \<noteq> 0 \<and>
                   (\<exists>pull. dict_get known (?i k) = Some pull \<and> sha (pr_head pull) \<noteq> ?s k))"
      and e: "\<forall>p. fst (create_or_update_stack client (?b k) (?d k) (?i k) (?s k)
                          title message (k \<noteq> 0) known wk) = Inr p \<longrightarrow>
                (dict_get known (?i k) = None \<longrightarrow>
                   (\<exists>req\<in>set reqs. map_of (req_json req) ''draft'' = Some (JBool (k \<noteq> 0)))) \<and>
                (\<not> k \<noteq> 0 \<and>
                 (\<exists>pull. dict_get known (?i k) = Some pull \<and> sha (pr_head pull) \<noteq> ?s k) \<longrightarrow>
                   (\<exists>req\<in>set reqs. req_method req = POST \<and> req_url req = ''/graghql''))"
      using create_or_update_stack_draft
              [of client "?b k" "?d k" "?i k" "?s k" title message "k \<noteq> 0" known wk]
      by (elim exE conjE)
    have eq: "reqs = blocks ! k"
      using r c by simp
    have call: "\<exists>base title message wk.
                 sent (snd (create_or_update_stack client base (?d k) (?i k) (?s k)
                              title message (k \<noteq> 0) known wk)) = sent wk @ blocks ! k"
      using c by blast
    have all: "\<forall>req\<in>set (blocks ! k).
                 map_of (req_json req) ''draft'' \<in> {None, Some (JBool (k \<noteq> 0))} \<and>
                 (req_method req = POST \<and> req_url req = ''/graghql'' \<longrightarrow>
                    k = 0 \<and>
                    (\<exists>pull. dict_get known (?i k) = Some pull \<and> sha (pr_head pull) \<noteq> ?s k))"
      using p unfolding eq by blast
    have sent_ok: "(\<exists>ds. fst ?run = Inr ds) \<longrightarrow>
               (dict_get known (?i k) = None \<longrightarrow>
                  (\<exists>req\<in>set (blocks ! k).
                     map_of (req_json req) ''draft'' = Some (JBool (k \<noteq> 0)))) \<and>
               (k = 0 \<and>
                (\<exists>pull. dict_get known (?i k) = Some pull \<and> sha (pr_head pull) \<noteq> ?s k) \<longrightarrow>
                  (\<exists>req\<in>set (blocks ! k).
                     req_method req = POST \<and> req_url req = ''/graghql''))"
      using ok e unfolding eq by blast
    show "(\<exists>base title message wk.
                 sent (snd (create_or_update_stack client base (?d k) (?i k) (?s k)
                              title message (k \<noteq> 0) known wk)) = sent wk @ blocks ! k) \<and>
              (\<forall>req\<in>set (blocks ! k).
                 map_of (req_json req) ''draft'' \<in> {None, Some (JBool (k \<noteq> 0))} \<and>
                 (req_method req = POST \<and> req_url req = ''/graghql'' \<longrightarrow>
                    k = 0 \<and>
                    (\<exists>pull. dict_get known (?i k) = Some pull \<and> sha (pr_head pull) \<noteq> ?s k))) \<and>
              ((\<exists>ds. fst ?run = Inr ds) \<longrightarrow>
               (dict_get known (?i k) = None \<longrightarrow>
                  (\<exists>req\<in>set (blocks ! k).
                     map_of (req_json req) ''draft'' = Some (JBool (k \<noteq> 0)))) \<and>
               (k = 0 \<and>
                (\<exists>pull. dict_get known (?i k) = Some pull \<and> sha (pr_head pull) \<noteq> ?s k) \<longrightarrow>
                  (\<exists>req\<in>set (blocks ! k).
                     req_method req = POST \<and> req_url req = ''/graghql'')))"
      using call all sent_ok by (intro conjI)
  qed
  have rst': "\<forall>req\<in>set rest.
                map_of (req_json req) ''draft'' = None \<and>
                \<not> (req_method req = POST \<and> req_url req = ''/graghql'')"
    using rst by blast
  show ?thesis
    using a le ne full per rst'
    by (intro exI [of _ blocks] exI [of _ rest] conjI)
qed

theorem draft_invariant_witness:
  "fst (get_local_changes stack_shell [''c2'', ''c1'']
          (Mapping.update ''I1111111111111111111111111111111111111111''
             (Some \<lparr>pr_html_url = ''https://host/pull/5'', pr_number = ''5'',
                    pr_title = ''subject'', pr_head = \<lparr>sha = ''c0''\<rparr>, pr_state = ''open''\<rparr>)
             Mapping.empty)
          (console_log ''Stacked pull request plan:'' world0)) =
     Inr [(''I2222222222222222222222222222222222222222'', ''c2'', ''subject'',
           ''Change-Id: I2222222222222222222222222222222222222222''),
          (''I1111111111111111111111111111111111111111'', ''c1'', ''subject'',
           ''Change-Id: I1111111111111111111111111111111111111111'')] \<and>
   map (\<lambda>r. (req_method r, req_url r, map_of (req_json r) ''draft''))
     (sent (snd (main_run stack_shell comment_service False ''stack/'' ''main''
                   [''c2'', ''c1'']
                   (Mapping.update ''I1111111111111111111111111111111111111111''
                      (Some \<lparr>pr_html_url = ''https://host/pull/5'', pr_number = ''5'',
                             pr_title = ''subject'', pr_head = \<lparr>sha = ''c0''\<rparr>,
                             pr_state = ''open''\<rparr>)
                      Mapping.empty)
                   world0))) =
     [(PATCH, ''git/refs/heads/stack/I1111111111111111111111111111111111111111'', None),
      (PATCH, ''pulls/5'', None),
      (POST, ''/graghql'', None),
      (POST, ''git/refs'', None),
      (POST, ''pulls'', Some (JBool True)),
      (GET, ''issues/7/comments'', None),
      (POST, ''issues/7/comments'', None),
      (GET, ''issues/7/comments'', None)]"
proof -
  let ?known = "Mapping.update ''I1111111111111111111111111111111111111111''
                  (Some \<lparr>pr_html_url = ''https://host/pull/5'', pr_number = ''5'',
                         pr_title = ''subject'', pr_head = \<lparr>sha = ''c0''\<rparr>,
                         pr_state = ''open''\<rparr>)
                  Mapping.empty"
  have f: "findall ''Change-Id: I1111111111111111111111111111111111111111'' =
             [''I1111111111111111111111111111111111111111'']"
          "findall ''Change-Id: I2222222222222222222222222222222222222222'' =
             [''I2222222222222222222222222222222222222222'']"
    by code_simp+
  have st: "strip ''Change-Id: I1111111111111111111111111111111111111111'' =
              ''Change-Id: I1111111111111111111111111111111111111111''"
           "strip ''Change-Id: I2222222222222222222222222222222222222222'' =
              ''Change-Id: I2222222222222222222222222222222222222222''"
           "strip ''subject'' = ''subject''"
    by code_simp+
  have h: "fst (get_local_changes stack_shell [''c2'', ''c1''] ?known
                  (console_log ''Stacked pull request plan:'' world0)) =
     Inr [(''I2222222222222222222222222222222222222222'', ''c2'', ''subject'',
           ''Change-Id: I2222222222222222222222222222222222222222''),
          (''I1111111111111111111111111111111111111111'', ''c1'', ''subject'',
           ''Change-Id: I1111111111111111111111111111111111111111'')]"
    by (simp add: run_defs stack_shell_def f st del: findall.simps)
  have r: "map (\<lambda>r. (req_method r, req_url r, map_of (req_json r) ''draft''))
     (sent (snd (main_run stack_shell comment_service False ''stack/'' ''main''
                   [''c2'', ''c1''] ?known world0))) =
     [(PATCH, ''git/refs/heads/stack/I1111111111111111111111111111111111111111'', None),
      (PATCH, ''pulls/5'', None),
      (POST, ''/graghql'', None),
      (POST, ''git/refs'', None),
      (POST, ''pulls'', Some (JBool True)),
      (GET, ''issues/7/comments'', None),
      (POST, ''issues/7/comments'', None),
      (GET, ''issues/7/comments'', None)]"
    by (simp add: run_defs stack_shell_def f st del: findall.simps)
  from draft_invariant [OF h, of comment_service False "''stack/''" "''main''"] h r
  show ?thesis
    by (intro conjI)
qed

end
